(* ===== verification/Net_Base.thy ===== *)
theory Net_Base
  imports Main "HOL-Library.Word"
begin

text \<open>
  The prelude: system calls and their results, the history of a run, the programs that
  issue calls, their weakest preconditions and the loops the servers are written with.

  The kernel is not under \<^verbatim>\<open>src/\<close>, so it is an argument of every
  definition that uses it: a function from the history of the run and the next call to the
  call's result. Nothing is assumed about it unless a hypothesis says so.
  Printing with \<^verbatim>\<open>printf\<close> and \<^verbatim>\<open>perror\<close> is left out
  (it changes no state of the programs), except where it reads a string that may lack its
  terminator.
\<close>

unbundle bit_operations_syntax

named_theorems wp_simps \<open>weakest preconditions of the program combinators\<close>
named_theorems io_simps \<open>running the program combinators on a concrete history\<close>

section \<open>Calls, results, histories\<close>

type_synonym bytes = "char list"

datatype errno = EAGAIN | EINTR | ECONNRESET | EPIPE | EOther nat

datatype ctl_op = CtlAdd | CtlDel | CtlMod

text \<open>
  The arguments of a call that the programs choose. \<open>CRecv\<close>'s flag is
  \<^verbatim>\<open>MSG_PEEK\<close>; \<open>CWriteHuge\<close> is a write whose count is
  \<^verbatim>\<open>(size_t)-1\<close>. An epoll registration carries the user datum (a file
  descriptor, or the index of an event slot). \<open>CRecvAll\<close> is a receive with
  \<^verbatim>\<open>MSG_WAITALL\<close>; \<open>CLib\<close> is a call of libevent, by name.
\<close>

datatype call =
    CSocket int int int
  | CSetReuse int
  | CBind int int
  | CListen int int
  | CConnect int int
  | CAccept int
  | CRead int nat
  | CWrite int bytes
  | CWriteHuge int
  | CRecv int nat bool
  | CSend int bytes
  | CRecvFrom int nat
  | CSendTo int bytes
  | CClose int
  | CGetFlags int
  | CSetNonblock int
  | CEpollCreate int
  | CEpollCtl int ctl_op int "32 word" int
  | CEpollWait int nat int
  | CSelect int "int set"
  | CPoll "(int \<times> 32 word) list" nat int
  | CStat bytes
  | COpen bytes
  | CUnlink bytes
  | CChdir "bytes option"
  | CFork
  | CWaitpid
  | CSigaction
  | CSleep nat
  | CFgets nat
  | CPipe
  | CSetOpt int bytes int
  | CBindAddr int bytes
  | CConnectAddr int bytes
  | CShutdown int
  | CGetSockName int
  | CGetPeerName int
  | CRecvAll int nat
  | CGetAddrInfo bytes
  | COpenFlags bytes int
  | CLib bytes "int list" bytes

text \<open>
  What a call gives back: its C return value, \<^verbatim>\<open>errno\<close>, the bytes it
  stored in the caller's buffer, the events it stored (the user datum or descriptor,
  with its event mask), and what \<^verbatim>\<open>stat\<close> says of a file.
\<close>

record resp =
  ret :: int
  err :: errno
  dat :: bytes
  evs :: "(int \<times> 32 word) list"
  regular :: bool
  st_size :: int

text \<open>The calls of a run and their results, the latest first.\<close>

type_synonym history = "(call \<times> resp) list"
type_synonym kernel = "history \<Rightarrow> call \<Rightarrow> resp"

definition mk_ret :: "int \<Rightarrow> resp" where
  "mk_ret n = \<lparr>ret = n, err = EOther 0, dat = [], evs = [], regular = False, st_size = 0\<rparr>"

lemma mk_ret_simps [simp]:
  "ret (mk_ret n) = n" "err (mk_ret n) = EOther 0" "dat (mk_ret n) = []" "evs (mk_ret n) = []"
  by (simp_all add: mk_ret_def)

text \<open>Constants of the system headers.\<close>

abbreviation (input) EPOLLIN :: "32 word" where "EPOLLIN \<equiv> 1"
abbreviation (input) EPOLLOUT :: "32 word" where "EPOLLOUT \<equiv> 4"
abbreviation (input) EPOLLET :: "32 word" where "EPOLLET \<equiv> 0x80000000"
abbreviation (input) AF_UNIX :: int where "AF_UNIX \<equiv> 1"
abbreviation (input) AF_INET :: int where "AF_INET \<equiv> 2"
abbreviation (input) SOCK_STREAM :: int where "SOCK_STREAM \<equiv> 1"
abbreviation (input) SOCK_DGRAM :: int where "SOCK_DGRAM \<equiv> 2"
abbreviation (input) STDOUT_FILENO :: int where "STDOUT_FILENO \<equiv> 1"
abbreviation (input) BUFSIZ :: nat where "BUFSIZ \<equiv> 8192"

section \<open>Programs\<close>

text \<open>
  A program runs on a history and either goes on with a value or stops: by
  \<^verbatim>\<open>exit\<close>, by \<^verbatim>\<open>abort\<close>, by a step C or POSIX leaves
  undefined, because it waits for something that has not happened (\<open>Blocked\<close>),
  because the bound given to a loop is used up (\<open>Fuel\<close>), or because
  \<^verbatim>\<open>SIGPIPE\<close> kills it (\<open>Killed\<close>).
\<close>

datatype ub =
    NullDeref
  | OutOfBounds
  | DivByZero
  | UninitUse
  | BadFree
  | NoTerminator
  | WaitUnlocked
  | UnlockNotOwner
  | DestroyLocked
  | UninitMutex
  | NotJoinable

datatype stop = Exit int | Abort | Undef ub | Blocked | Fuel | Killed

type_synonym 'a io = "history \<Rightarrow> (stop + 'a) \<times> history"

definition pure :: "'a \<Rightarrow> 'a io" where
  "pure a h = (Inr a, h)"

definition halt :: "stop \<Rightarrow> 'a io" where
  "halt e h = (Inl e, h)"

definition sys :: "kernel \<Rightarrow> call \<Rightarrow> resp io" where
  "sys k c h = (Inr (k h c), (c, k h c) # h)"

definition bnd :: "'a io \<Rightarrow> ('a \<Rightarrow> 'b io) \<Rightarrow> 'b io" where
  "bnd m f h = (case m h of (Inl e, h') \<Rightarrow> (Inl e, h') | (Inr a, h') \<Rightarrow> f a h')"

text \<open>
  A write or send to a peer: when the peer has gone (\<open>EPIPE\<close>) the kernel also raises
  \<^verbatim>\<open>SIGPIPE\<close>, which kills a process that neither ignores nor handles it.
\<close>

definition wr :: "kernel \<Rightarrow> call \<Rightarrow> resp io" where
  "wr k c = bnd (sys k c) (\<lambda>r. if ret r = -1 \<and> err r = EPIPE then halt Killed else pure r)"

definition lift :: "stop + 'a \<Rightarrow> 'a io" where
  "lift x = (case x of Inl e \<Rightarrow> halt e | Inr a \<Rightarrow> pure a)"

lemma lift_simps [simp]: "lift (Inl e) = halt e" "lift (Inr a) = pure a"
  by (simp_all add: lift_def)

lemma io_run_simps [io_simps]:
  "pure a h = (Inr a, h)"
  "halt e h = (Inl e, h)"
  "sys k c h = (Inr (k h c), (c, k h c) # h)"
  "bnd m f h = (case m h of (Inl e, h') \<Rightarrow> (Inl e, h') | (Inr a, h') \<Rightarrow> f a h')"
  "wr k c h = (if ret (k h c) = -1 \<and> err (k h c) = EPIPE then (Inl Killed, (c, k h c) # h) else (Inr (k h c), (c, k h c) # h))"
  by (simp_all add: pure_def halt_def sys_def bnd_def wr_def)

lemma bnd_pure: "bnd (pure a) f = f a"
  by (simp add: fun_eq_iff io_simps)

lemma bnd_halt: "bnd (halt e) f = halt e"
  by (simp add: fun_eq_iff io_simps)

lemma bnd_assoc: "bnd (bnd m f) g = bnd m (\<lambda>a. bnd (f a) g)"
  by (simp add: fun_eq_iff bnd_def split: prod.split sum.split)

section \<open>Weakest preconditions\<close>

text \<open>
  \<open>wp m Q E h\<close>: run on the history \<open>h\<close>, the program \<open>m\<close> goes on
  with a value and history that satisfy \<open>Q\<close>, or stops with a reason and history
  that satisfy \<open>E\<close>.
\<close>

definition wp :: "'a io \<Rightarrow> ('a \<Rightarrow> history \<Rightarrow> bool) \<Rightarrow> (stop \<Rightarrow> history \<Rightarrow> bool) \<Rightarrow> history \<Rightarrow> bool" where
  "wp m Q E h = (case m h of (Inl e, h') \<Rightarrow> E e h' | (Inr a, h') \<Rightarrow> Q a h')"

lemma wp_pure [wp_simps]: "wp (pure a) Q E h = Q a h"
  by (simp add: wp_def io_simps)

lemma wp_pure_fun [wp_simps]: "wp (pure a) Q E = Q a"
  by (simp add: fun_eq_iff wp_pure)

lemma wp_halt [wp_simps]: "wp (halt e) Q E h = E e h"
  by (simp add: wp_def io_simps)

lemma wp_sys [wp_simps]: "wp (sys k c) Q E h = Q (k h c) ((c, k h c) # h)"
  by (simp add: wp_def io_simps)

lemma wp_bnd [wp_simps]: "wp (bnd m f) Q E h = wp m (\<lambda>a. wp (f a) Q E) E h"
  by (auto simp: wp_def io_simps split: prod.split sum.split)

lemma wp_wr [wp_simps]:
  "wp (wr k c) Q E h =
     (if ret (k h c) = -1 \<and> err (k h c) = EPIPE then E Killed ((c, k h c) # h) else Q (k h c) ((c, k h c) # h))"
  by (simp add: wp_def io_simps)

lemma wp_if [wp_simps]: "wp (if b then m else n) Q E h = (if b then wp m Q E h else wp n Q E h)"
  by simp

lemma wp_let [wp_simps]: "wp (let x = a in f x) Q E h = (let x = a in wp (f x) Q E h)"
  by simp

lemma wp_mono:
  assumes "wp m Q E h"
    and "\<And>a h'. Q a h' \<Longrightarrow> Q' a h'" and "\<And>e h'. E e h' \<Longrightarrow> E' e h'"
  shows "wp m Q' E' h"
  using assms by (auto simp: wp_def split: prod.splits sum.splits)

lemma wp_conj:
  "wp m Q E h \<Longrightarrow> wp m Q' E' h \<Longrightarrow> wp m (\<lambda>a h'. Q a h' \<and> Q' a h') (\<lambda>e h'. E e h' \<and> E' e h') h"
  by (auto simp: wp_def split: prod.splits sum.splits)

lemma wp_InrD: "wp m Q E h \<Longrightarrow> m h = (Inr a, h') \<Longrightarrow> Q a h'"
  by (simp add: wp_def)

lemma wp_InlD: "wp m Q E h \<Longrightarrow> m h = (Inl e, h') \<Longrightarrow> E e h'"
  by (simp add: wp_def)

section \<open>Loops\<close>

text \<open>
  \<open>for_io\<close> is a counted loop over the listed indices, \<open>for_brk\<close> one whose
  body may break, and \<open>times\<close> the first \<open>n\<close> rounds of an endless loop.
\<close>

fun for_io :: "'i list \<Rightarrow> ('i \<Rightarrow> 's \<Rightarrow> 's io) \<Rightarrow> 's \<Rightarrow> 's io" where
  "for_io [] body s = pure s"
| "for_io (i # is) body s = bnd (body i s) (for_io is body)"

fun for_brk :: "'i list \<Rightarrow> ('i \<Rightarrow> 's \<Rightarrow> (bool \<times> 's) io) \<Rightarrow> 's \<Rightarrow> 's io" where
  "for_brk [] body s = pure s"
| "for_brk (i # is) body s =
     bnd (body i s) (\<lambda>(brk, s'). if brk then pure s' else for_brk is body s')"

fun times :: "nat \<Rightarrow> ('s \<Rightarrow> 's io) \<Rightarrow> 's \<Rightarrow> 's io" where
  "times 0 body s = pure s"
| "times (Suc n) body s = bnd (body s) (times n body)"

lemma for_io_append: "for_io (xs @ ys) body s = bnd (for_io xs body s) (for_io ys body)"
proof (induction xs arbitrary: s)
  case (Cons x xs)
  have "for_io (xs @ ys) body = (\<lambda>s. bnd (for_io xs body s) (for_io ys body))"
    by (rule ext) (rule Cons.IH)
  then show ?case by (simp add: bnd_assoc)
qed (simp add: bnd_pure)

lemma wp_for_io:
  assumes "\<And>i s h. i \<in> set is \<Longrightarrow> I s h \<Longrightarrow> wp (body i s) I E h" and "I s h"
  shows "wp (for_io is body s) I E h"
  using assms
proof (induction "is" arbitrary: s h)
  case Nil
  then show ?case by (simp add: wp_simps)
next
  case (Cons i "is")
  have "wp (body i s) I E h" using Cons.prems by simp
  then show ?case
    by (auto simp: wp_simps elim!: wp_mono intro!: Cons.IH Cons.prems(1))
qed

text \<open>The invariant may speak of the indices that are left.\<close>

lemma wp_for_io_rest:
  assumes "\<And>i rest s h. I (i # rest) s h \<Longrightarrow> wp (body i s) (I rest) E h" and "I is s h"
  shows "wp (for_io is body s) (I []) E h"
  using assms(2)
proof (induction "is" arbitrary: s h)
  case Nil
  then show ?case by (simp add: wp_simps)
next
  case (Cons i "is")
  from assms(1)[OF Cons.prems] show ?case
    by (auto simp: wp_simps elim!: wp_mono intro!: Cons.IH)
qed

lemma wp_for_brk:
  assumes "\<And>i s h. i \<in> set is \<Longrightarrow> I s h \<Longrightarrow> wp (body i s) (\<lambda>(b, s') h'. I s' h') E h" and "I s h"
  shows "wp (for_brk is body s) I E h"
  using assms
proof (induction "is" arbitrary: s h)
  case Nil
  then show ?case by (simp add: wp_simps)
next
  case (Cons i "is")
  have "wp (body i s) (\<lambda>(b, s') h'. I s' h') E h" using Cons.prems by simp
  then show ?case
    by (auto simp: wp_simps elim!: wp_mono intro!: Cons.IH Cons.prems(1))
qed

lemma wp_times:
  assumes "\<And>s h. I s h \<Longrightarrow> wp (body s) I E h" and "I s h"
  shows "wp (times n body s) I E h"
  using assms(2)
proof (induction n arbitrary: s h)
  case 0
  then show ?case by (simp add: wp_simps)
next
  case (Suc n)
  from assms(1)[OF Suc.prems] show ?case
    by (auto simp: wp_simps elim!: wp_mono intro!: Suc.IH)
qed

section \<open>What a history says about descriptors\<close>

text \<open>
  The connections that have been accepted and not yet closed, and the descriptors the
  kernel watches for an epoll instance: both are read off the history.
\<close>

fun conn_step :: "int set \<Rightarrow> call \<times> resp \<Rightarrow> int set" where
  "conn_step S (c, r) =
     (case c of
        CAccept l \<Rightarrow> (if 0 \<le> ret r then insert (ret r) S else S)
      | CClose fd \<Rightarrow> S - {fd}
      | _ \<Rightarrow> S)"

fun open_conns :: "history \<Rightarrow> int set" where
  "open_conns [] = {}"
| "open_conns (e # h) = conn_step (open_conns h) e"

fun watch_step :: "int \<Rightarrow> int set \<Rightarrow> call \<times> resp \<Rightarrow> int set" where
  "watch_step efd S (c, r) =
     (case c of
        CEpollCtl e ctl fd m d \<Rightarrow>
          (if e = efd \<and> 0 \<le> ret r
           then (case ctl of CtlAdd \<Rightarrow> insert fd S | CtlDel \<Rightarrow> S - {fd} | CtlMod \<Rightarrow> S)
           else S)
      | CClose fd \<Rightarrow> S - {fd}
      | _ \<Rightarrow> S)"

fun watched :: "int \<Rightarrow> history \<Rightarrow> int set" where
  "watched efd [] = {}"
| "watched efd (e # h) = watch_step efd (watched efd h) e"

text \<open>The bytes that sends have put on a descriptor: of each call's bytes, as many as it answers.\<close>

fun sent_on :: "int \<Rightarrow> history \<Rightarrow> bytes" where
  "sent_on fd [] = []"
| "sent_on fd ((c, r) # h) =
     sent_on fd h @ (case c of CSend d b \<Rightarrow> if d = fd then take (nat (ret r)) b else [] | _ \<Rightarrow> [])"

text \<open>Documented behaviour of the kernel, as predicates that a theorem may assume.\<close>

definition send_room :: "kernel \<Rightarrow> int \<Rightarrow> nat \<Rightarrow> bool" where
  "send_room k fd n \<longleftrightarrow>
     (\<forall>h b. length (sent_on fd h) + length b \<le> n \<longrightarrow> ret (k h (CSend fd b)) = int (length b))"

definition accept_fresh :: "kernel \<Rightarrow> bool" where
  "accept_fresh k \<longleftrightarrow>
     (\<forall>h l. 0 \<le> ret (k h (CAccept l)) \<longrightarrow>
        ret (k h (CAccept l)) \<notin> open_conns h \<and> ret (k h (CAccept l)) \<noteq> l)"

definition read_bounded :: "kernel \<Rightarrow> bool" where
  "read_bounded k \<longleftrightarrow>
     (\<forall>h fd n. ret (k h (CRead fd n)) \<le> int n \<and>
        (0 \<le> ret (k h (CRead fd n)) \<longrightarrow> int (length (dat (k h (CRead fd n)))) = ret (k h (CRead fd n))))"

lemma accept_freshD:
  "accept_fresh k \<Longrightarrow> 0 \<le> ret (k h (CAccept l)) \<Longrightarrow> ret (k h (CAccept l)) \<notin> open_conns h"
  "accept_fresh k \<Longrightarrow> 0 \<le> ret (k h (CAccept l)) \<Longrightarrow> ret (k h (CAccept l)) \<noteq> l"
  by (auto simp: accept_fresh_def)

lemma read_boundedD:
  "read_bounded k \<Longrightarrow> ret (k h (CRead fd n)) \<le> int n"
  "read_bounded k \<Longrightarrow> 0 \<le> ret (k h (CRead fd n)) \<Longrightarrow>
     int (length (dat (k h (CRead fd n)))) = ret (k h (CRead fd n))"
  by (auto simp: read_bounded_def)

text \<open>
  What the kernel promises about descriptors: a call that creates one fails with
  \<open>-1\<close> or returns one that is neither open nor watched, and
  \<^verbatim>\<open>epoll_ctl\<close> answers \<open>0\<close> or \<open>-1\<close>.
\<close>

definition fresh_fd :: "history \<Rightarrow> int \<Rightarrow> bool" where
  "fresh_fd h fd \<longleftrightarrow> 0 \<le> fd \<and> fd \<notin> open_conns h \<and> (\<forall>efd. fd \<notin> watched efd h)"

definition kernel_fds :: "kernel \<Rightarrow> bool" where
  "kernel_fds k \<longleftrightarrow>
     (\<forall>h l. ret (k h (CAccept l)) = -1 \<or> fresh_fd h (ret (k h (CAccept l)))) \<and>
     (\<forall>h f. ret (k h (COpen f)) = -1 \<or> fresh_fd h (ret (k h (COpen f)))) \<and>
     (\<forall>h e c fd m d. ret (k h (CEpollCtl e c fd m d)) \<in> {0, -1})"

lemma kernel_fdsD:
  assumes "kernel_fds k"
  shows "ret (k h (CAccept l)) = -1 \<or> fresh_fd h (ret (k h (CAccept l)))"
    and "ret (k h (COpen f)) = -1 \<or> fresh_fd h (ret (k h (COpen f)))"
    and "ret (k h (CEpollCtl e c fd m d)) = 0 \<or> ret (k h (CEpollCtl e c fd m d)) = -1"
  using assms by (auto simp: kernel_fds_def)

lemma ctl_ok [simp]:
  "kernel_fds k \<Longrightarrow> 0 \<le> ret (k h (CEpollCtl e c fd m d)) \<longleftrightarrow> ret (k h (CEpollCtl e c fd m d)) \<noteq> -1"
  using kernel_fdsD(3)[of k h e c fd m d] by auto

text \<open>Any kernel can be kept to these promises: what breaks them becomes a failure.\<close>

definition keep_fds :: "kernel \<Rightarrow> kernel" where
  "keep_fds k h c =
     (case c of
        CAccept l \<Rightarrow> if fresh_fd h (ret (k h c)) then k h c else mk_ret (-1)
      | COpen f \<Rightarrow> if fresh_fd h (ret (k h c)) then k h c else mk_ret (-1)
      | CEpollCtl _ _ _ _ _ \<Rightarrow> mk_ret 0
      | _ \<Rightarrow> k h c)"

lemma kernel_fds_keep: "kernel_fds (keep_fds k)"
  by (simp add: kernel_fds_def keep_fds_def)

text \<open>
  What an epoll server's loop keeps: the watched descriptors are the listening socket and the
  connections that have been accepted and not closed.
\<close>

definition epoll_inv :: "int \<Rightarrow> int \<Rightarrow> history \<Rightarrow> bool" where
  "epoll_inv lfd efd h \<longleftrightarrow> watched efd h = insert lfd (open_conns h) \<and> lfd \<notin> open_conns h"

abbreviation (input) any_stop :: "stop \<Rightarrow> history \<Rightarrow> bool" where
  "any_stop \<equiv> \<lambda>_ _. True"

text \<open>Kernels for concrete runs: one that answers from a list, in the order of the calls.\<close>

definition script :: "resp list \<Rightarrow> kernel" where
  "script rs h c = (if length h < length rs then rs ! length h else mk_ret (-1))"

end
