(* ===== verification/C_Strings.thy ===== *)
theory C_Strings
  imports Net_Base
begin

text \<open>
  The C library's string routines the programs use, on buffers that are lists of bytes:
  terminated strings in fixed arrays, \<^verbatim>\<open>sprintf\<close> with
  \<^verbatim>\<open>%d\<close> and \<^verbatim>\<open>%s\<close>, \<^verbatim>\<open>sscanf\<close> with
  scan sets, \<^verbatim>\<open>strncasecmp\<close>, \<^verbatim>\<open>toupper\<close> and
  \<^verbatim>\<open>atoi\<close>. A store that does not fit its array is
  \<^term>\<open>Undef OutOfBounds\<close>.
\<close>

abbreviation NUL :: char where "NUL \<equiv> CHR 0x00"
abbreviation LF :: char where "LF \<equiv> CHR 0x0A"
abbreviation CR :: char where "CR \<equiv> CHR 0x0D"

section \<open>Terminated strings in fixed arrays\<close>

definition c_str :: "bytes \<Rightarrow> bytes" where
  "c_str buf = takeWhile (\<lambda>c. c \<noteq> NUL) buf"

definition terminated :: "bytes \<Rightarrow> bool" where
  "terminated buf \<longleftrightarrow> NUL \<in> set buf"

text \<open>Store a string and its terminator at an offset of an array.\<close>

definition store_at :: "nat \<Rightarrow> bytes \<Rightarrow> bytes \<Rightarrow> stop + bytes" where
  "store_at off s buf =
     (if off + length s < length buf
      then Inr (take off buf @ s @ NUL # drop (off + length s + 1) buf)
      else Inl (Undef OutOfBounds))"

lemma c_str_terminated: "NUL \<notin> set s \<Longrightarrow> c_str (s @ NUL # t) = s"
  by (induction s) (auto simp: c_str_def)

lemma c_str_Nil [simp]: "c_str (NUL # t) = []"
  by (simp add: c_str_def)

lemma NUL_notin_c_str [simp]: "NUL \<notin> set (c_str buf)"
  by (auto simp: c_str_def dest: set_takeWhileD)

lemma c_str_c_str [simp]: "c_str (c_str buf) = c_str buf"
  by (simp add: c_str_def)

lemma c_str_id: "NUL \<notin> set s \<Longrightarrow> c_str s = s"
  by (auto simp: c_str_def takeWhile_eq_all_conv)

lemma take_c_str [simp]: "take (length (c_str buf)) buf = c_str buf"
  unfolding c_str_def by (rule takeWhile_eq_take [symmetric])

lemma length_c_str_le: "length (c_str buf) \<le> length buf"
  by (simp add: c_str_def length_takeWhile_le)

lemma terminated_append [simp]: "terminated (s @ t) \<longleftrightarrow> terminated s \<or> terminated t"
  by (auto simp: terminated_def)

lemma terminated_Cons [simp]: "terminated (c # t) \<longleftrightarrow> c = NUL \<or> terminated t"
  by (auto simp: terminated_def)

lemma c_str_append: "NUL \<notin> set s \<Longrightarrow> c_str (s @ t) = s @ c_str t"
  by (induction s) (auto simp: c_str_def)

lemma store_at_length: "store_at off s buf = Inr buf' \<Longrightarrow> length buf' = length buf"
  by (auto simp: store_at_def split: if_splits)

lemma store_at_0:
  "store_at 0 s buf = Inr buf' \<Longrightarrow> NUL \<notin> set s \<Longrightarrow> c_str buf' = s"
  by (auto simp: store_at_def c_str_terminated split: if_splits)

lemma store_at_terminated: "store_at off s buf = Inr buf' \<Longrightarrow> terminated buf'"
  by (auto simp: store_at_def split: if_splits)

text \<open>
  Appending at \<^verbatim>\<open>buf + strlen(buf)\<close>, the way the response headers are built.
\<close>

lemma store_at_end:
  assumes "store_at (length (c_str buf)) s buf = Inr buf'" and "NUL \<notin> set s"
  shows "c_str buf' = c_str buf @ s"
proof -
  from assms have "buf' = c_str buf @ s @ NUL # drop (length (c_str buf) + length s + 1) buf"
    by (auto simp: store_at_def split: if_splits)
  then show ?thesis
    using assms(2) by (simp add: c_str_append)
qed

section \<open>Characters\<close>

definition is_space :: "char \<Rightarrow> bool" where
  "is_space c \<longleftrightarrow> c \<in> {CHR '' '', CHR 0x09, CHR 0x0A, CHR 0x0B, CHR 0x0C, CHR 0x0D}"

definition to_upper :: "char \<Rightarrow> char" where
  "to_upper c =
     (let n = of_char c :: nat in if 97 \<le> n \<and> n \<le> 122 then char_of (n - 32) else c)"

definition to_lower :: "char \<Rightarrow> char" where
  "to_lower c =
     (let n = of_char c :: nat in if 65 \<le> n \<and> n \<le> 90 then char_of (n + 32) else c)"

lemma to_upper_idem [simp]: "to_upper (to_upper c) = to_upper c"
proof -
  have "(of_char c :: nat) < 256" by simp
  then show ?thesis by (auto simp: to_upper_def Let_def of_char_of)
qed

lemma to_upper_NUL [simp]: "to_upper c = NUL \<longleftrightarrow> c = NUL"
proof -
  have "(of_char NUL :: nat) = 0" by simp
  then have eq: "of_char d = (0::nat) \<longleftrightarrow> d = NUL" for d :: char
    by (metis of_char_eq_iff)
  have "char_of (of_char c - 32 :: nat) \<noteq> NUL" if "97 \<le> (of_char c :: nat)" "of_char c \<le> (122::nat)"
    using that by (simp add: eq [symmetric] of_char_of)
  then show ?thesis
    by (auto simp: to_upper_def Let_def)
qed

section \<open>sscanf\<close>

text \<open>
  The directives the programs use: \<^verbatim>\<open>%[^c]\<close>, white space, a literal
  character, and \<^verbatim>\<open>%s\<close>. The result is the list of the fields that were
  assigned, in order: scanning stops at the first directive that fails.
\<close>

datatype directive = NotChar char | White | Lit char | Word

fun sscanf :: "directive list \<Rightarrow> bytes \<Rightarrow> bytes list" where
  "sscanf [] s = []"
| "sscanf (NotChar d # ds) s =
     (let f = takeWhile (\<lambda>c. c \<noteq> d) s
      in if f = [] then [] else f # sscanf ds (dropWhile (\<lambda>c. c \<noteq> d) s))"
| "sscanf (White # ds) s = sscanf ds (dropWhile is_space s)"
| "sscanf (Lit d # ds) s = (case s of [] \<Rightarrow> [] | c # t \<Rightarrow> if c = d then sscanf ds t else [])"
| "sscanf (Word # ds) s =
     (let u = dropWhile is_space s; f = takeWhile (\<lambda>c. \<not> is_space c) u
      in if f = [] then [] else f # sscanf ds (dropWhile (\<lambda>c. \<not> is_space c) u))"

text \<open>Every field is a non-empty piece of the input.\<close>

lemma set_dropWhile_subset: "set (dropWhile P xs) \<subseteq> set xs"
  by (auto dest: set_dropWhileD)

lemma sscanf_field:
  "f \<in> set (sscanf ds s) \<Longrightarrow> f \<noteq> [] \<and> length f \<le> length s \<and> set f \<subseteq> set s"
proof (induction ds s rule: sscanf.induct)
  case (2 d ds s)
  then show ?case
    using set_dropWhile_subset[of "\<lambda>c. c \<noteq> d" s] length_dropWhile_le[of "\<lambda>c. c \<noteq> d" s]
    by (fastforce simp: Let_def length_takeWhile_le split: if_splits dest: set_takeWhileD)
next
  case (3 ds s)
  then show ?case
    using set_dropWhile_subset[of is_space s] length_dropWhile_le[of is_space s] by fastforce
next
  case (4 d ds s)
  then show ?case by (fastforce split: list.splits if_splits)
next
  case (5 ds s)
  then show ?case
    using set_dropWhile_subset[of is_space s] length_dropWhile_le[of is_space s]
      set_dropWhile_subset[of "\<lambda>c. \<not> is_space c" "dropWhile is_space s"]
      length_dropWhile_le[of "\<lambda>c. \<not> is_space c" "dropWhile is_space s"]
      length_takeWhile_le[of "\<lambda>c. \<not> is_space c" "dropWhile is_space s"]
    by (fastforce simp: Let_def split: if_splits dest: set_takeWhileD)
qed simp

section \<open>strncasecmp\<close>

text \<open>
  Whether the first \<open>n\<close> characters agree up to case; \<open>None\<close> when the
  comparison runs past the end of an array.
\<close>

fun strncaseeq :: "nat \<Rightarrow> bytes \<Rightarrow> bytes \<Rightarrow> bool option" where
  "strncaseeq 0 a b = Some True"
| "strncaseeq (Suc n) (x # a) (y # b) =
     (if to_lower x \<noteq> to_lower y then Some False
      else if x = NUL then Some True else strncaseeq n a b)"
| "strncaseeq (Suc n) a b = None"

lemma strncaseeq_in_bounds:
  "n \<le> length a \<Longrightarrow> n \<le> length b \<Longrightarrow> strncaseeq n a b \<noteq> None"
  by (induction n a b rule: strncaseeq.induct) auto

section \<open>Decimal numbers\<close>

definition digit :: "nat \<Rightarrow> char" where
  "digit d = char_of (48 + d)"

fun dec_nat :: "nat \<Rightarrow> bytes" where
  "dec_nat n = (if n < 10 then [digit n] else dec_nat (n div 10) @ [digit (n mod 10)])"

declare dec_nat.simps [simp del]

definition dec_int :: "int \<Rightarrow> bytes" where
  "dec_int i = (if i < 0 then CHR ''-'' # dec_nat (nat (- i)) else dec_nat (nat i))"

definition is_digit :: "char \<Rightarrow> bool" where
  "is_digit c \<longleftrightarrow> 48 \<le> (of_char c :: nat) \<and> (of_char c :: nat) \<le> 57"

definition digit_val :: "char \<Rightarrow> int" where
  "digit_val c = int (of_char c) - 48"

definition digits_val :: "bytes \<Rightarrow> int" where
  "digits_val s = foldl (\<lambda>v c. 10 * v + digit_val c) 0 s"

definition atoi :: "bytes \<Rightarrow> int" where
  "atoi s =
     (case dropWhile is_space s of
        [] \<Rightarrow> 0
      | c # t \<Rightarrow>
          (if c = CHR ''-'' then - digits_val (takeWhile is_digit t)
           else if c = CHR ''+'' then digits_val (takeWhile is_digit t)
           else digits_val (takeWhile is_digit (c # t))))"

lemma of_char_digit [simp]: "d < 10 \<Longrightarrow> (of_char (digit d) :: nat) = 48 + d"
  by (simp add: digit_def)

lemma dec_nat_digits: "c \<in> set (dec_nat n) \<Longrightarrow> is_digit c"
proof (induction n rule: dec_nat.induct)
  case (1 n)
  then show ?case
    by (subst (asm) dec_nat.simps) (auto simp: is_digit_def split: if_splits)
qed

lemma dec_nat_not_Nil [simp]: "dec_nat n \<noteq> []"
  by (subst dec_nat.simps) simp

lemma digits_val_dec_nat: "digits_val (dec_nat n) = int n"
proof (induction n rule: dec_nat.induct)
  case (1 n)
  show ?case
  proof (cases "n < 10")
    case True
    then show ?thesis by (subst dec_nat.simps) (simp add: digits_val_def digit_val_def)
  next
    case False
    with 1 show ?thesis
      by (subst dec_nat.simps) (simp add: digits_val_def digit_val_def zdiv_int zmod_int)
  qed
qed

lemma is_digit_not_space: "is_digit c \<Longrightarrow> \<not> is_space c"
  by (auto simp: is_digit_def is_space_def)

lemma is_digit_not_sign: "is_digit c \<Longrightarrow> c \<noteq> CHR ''-'' \<and> c \<noteq> CHR ''+''"
  by (auto simp: is_digit_def)

lemma atoi_dec_nat: "atoi (dec_nat n) = int n"
proof -
  obtain c t where ct: "dec_nat n = c # t" by (cases "dec_nat n") auto
  have d: "is_digit x" if "x \<in> set (dec_nat n)" for x using that by (rule dec_nat_digits)
  have "is_digit c" using d ct by simp
  moreover have tw: "takeWhile is_digit t = t"
    using d ct by (auto simp: takeWhile_eq_all_conv)
  ultimately show ?thesis
    using is_digit_not_space is_digit_not_sign digits_val_dec_nat[of n]
    by (simp add: atoi_def ct tw)
qed

lemma NUL_notin_dec_nat [simp]: "NUL \<notin> set (dec_nat n)"
  using dec_nat_digits by (force simp: is_digit_def)

lemma NUL_notin_dec_int [simp]: "NUL \<notin> set (dec_int i)"
  by (simp add: dec_int_def)

end
