(* ===== verification/Http_Line.thy ===== *)
theory Http_Line
  imports C_Strings
begin

text \<open>
  Reading a request from a socket (\<^verbatim>\<open>http/myhttpd.c\<close>:
  \<^verbatim>\<open>get_line\<close> and the loop of \<^verbatim>\<open>do_read\<close> that skips
  the header lines). The code reads one byte at a time and looks ahead with
  \<^verbatim>\<open>MSG_PEEK\<close>; the reference definitions \<open>http_line\<close> and
  \<open>skip_ref\<close> say what that does to the byte stream the socket delivers.
\<close>

section \<open>get_line\<close>

text \<open>The byte a one-byte receive leaves in \<^verbatim>\<open>c\<close>: unchanged unless one was stored.\<close>

definition byte0 :: "char \<Rightarrow> resp \<Rightarrow> char" where
  "byte0 c r = (if 0 < ret r then (case dat r of [] \<Rightarrow> c | b # _ \<Rightarrow> b) else c)"

definition gl_cr :: "kernel \<Rightarrow> int \<Rightarrow> char \<Rightarrow> int \<Rightarrow> (char \<times> int) io" where
  "gl_cr k fd c n =
     (if c = CR
      then bnd (sys k (CRecv fd 1 True)) (\<lambda>p.
        let c1 = byte0 c p in
        if 0 < ret p \<and> c1 = LF
        then bnd (sys k (CRecv fd 1 False)) (\<lambda>q. pure (byte0 c1 q, ret p))
        else pure (LF, ret p))
      else pure (c, n))"

text \<open>
  The loop with \<open>m = size - 1 - i\<close> bytes of room left. Its variables are
  \<^verbatim>\<open>i\<close>, the buffer, \<^verbatim>\<open>c\<close>, and \<^verbatim>\<open>n\<close>, which
  is not initialised before the first receive (\<open>None\<close>). When nothing is received
  \<^verbatim>\<open>c\<close> becomes a line feed, which ends the loop.
\<close>

fun gl_loop :: "kernel \<Rightarrow> int \<Rightarrow> nat \<Rightarrow> nat \<Rightarrow> bytes \<Rightarrow> char \<Rightarrow> int option \<Rightarrow> (nat \<times> bytes \<times> int option) io" where
  "gl_loop k fd 0 i buf c n = pure (i, buf, n)"
| "gl_loop k fd (Suc m) i buf c n =
     (if c = LF then pure (i, buf, n)
      else bnd (sys k (CRecv fd 1 False)) (\<lambda>r.
        if 0 < ret r
        then bnd (gl_cr k fd (byte0 c r) (ret r)) (\<lambda>(c', n').
          if i < length buf
          then gl_loop k fd m (Suc i) (buf[i := c']) c' (Some n')
          else halt (Undef OutOfBounds))
        else pure (i, buf, Some (ret r))))"

lemma gl_loop_numeral [simp]:
  "gl_loop k fd (numeral v) i buf c n =
     (if c = LF then pure (i, buf, n)
      else bnd (sys k (CRecv fd 1 False)) (\<lambda>r.
        if 0 < ret r
        then bnd (gl_cr k fd (byte0 c r) (ret r)) (\<lambda>(c', n').
          if i < length buf
          then gl_loop k fd (pred_numeral v) (Suc i) (buf[i := c']) c' (Some n')
          else halt (Undef OutOfBounds))
        else pure (i, buf, Some (ret r))))"
  by (simp add: numeral_eq_Suc)

definition get_line :: "kernel \<Rightarrow> int \<Rightarrow> bytes \<Rightarrow> int \<Rightarrow> (int \<times> bytes) io" where
  "get_line k fd buf sz =
     bnd (gl_loop k fd (nat (sz - 1)) 0 buf NUL None) (\<lambda>(i, buf', n).
       if i < length buf'
       then (case n of
               None \<Rightarrow> halt (Undef UninitUse)
             | Some n' \<Rightarrow> pure (if n' = -1 then -1 else int i, buf'[i := NUL]))
       else halt (Undef OutOfBounds))"

section \<open>The byte stream behind a socket\<close>

text \<open>
  How many bytes of a socket a history has consumed, and a socket that delivers the bytes
  \<open>s\<close> in order and then answers \<open>z\<close>: \<open>0\<close> once the peer has closed,
  \<open>-1\<close> when nothing is there yet on a non-blocking socket. A peek consumes nothing.
\<close>

definition taken :: "int \<Rightarrow> history \<Rightarrow> nat" where
  "taken fd h =
     sum_list (map (\<lambda>(c, r). case c of
       CRecv f n pk \<Rightarrow> if f = fd \<and> \<not> pk then nat (ret r) else 0 | _ \<Rightarrow> 0) h)"

lemma taken_Nil [simp]: "taken fd [] = 0"
  by (simp add: taken_def)

lemma taken_append [simp]: "taken fd (h @ h') = taken fd h + taken fd h'"
  by (simp add: taken_def)

lemma taken_recv [simp]:
  "taken fd ((CRecv f n pk, r) # h) = (if f = fd \<and> \<not> pk then nat (ret r) else 0) + taken fd h"
  by (simp add: taken_def)

definition stream_at :: "kernel \<Rightarrow> int \<Rightarrow> bytes \<Rightarrow> int \<Rightarrow> bool" where
  "stream_at k fd s z \<longleftrightarrow>
     z \<le> 0 \<and>
     (\<forall>h pk. let r = k h (CRecv fd 1 pk) in
        if taken fd h < length s then ret r = 1 \<and> dat r = [s ! taken fd h]
        else ret r = z)"

lemma stream_at_more:
  assumes "stream_at k fd s z" and "drop (taken fd h) s = b # u"
  shows "ret (k h (CRecv fd 1 pk)) = 1" and "byte0 c (k h (CRecv fd 1 pk)) = b"
    and "drop (Suc (taken fd h)) s = u"
proof -
  have lt: "taken fd h < length s"
    using assms(2) by (metis drop_all leI list.distinct(1))
  moreover have "s ! taken fd h = b"
    using assms(2) lt by (metis nth_via_drop)
  ultimately show "ret (k h (CRecv fd 1 pk)) = 1" and "byte0 c (k h (CRecv fd 1 pk)) = b"
    using assms(1) by (auto simp: stream_at_def Let_def byte0_def split: if_splits)
  show "drop (Suc (taken fd h)) s = u"
    using assms(2) by (metis drop_Suc list.sel(3) tl_drop)
qed

lemma stream_at_end:
  assumes "stream_at k fd s z" and "drop (taken fd h) s = []"
  shows "ret (k h (CRecv fd 1 pk)) = z" and "byte0 c (k h (CRecv fd 1 pk)) = c"
  using assms by (auto simp: stream_at_def Let_def byte0_def split: if_splits)

text \<open>A kernel that is such a socket, for concrete runs.\<close>

definition stream_kernel :: "int \<Rightarrow> bytes \<Rightarrow> int \<Rightarrow> kernel" where
  "stream_kernel fd s z h c =
     (case c of
        CRecv f n pk \<Rightarrow>
          if taken fd h < length s then mk_ret 1\<lparr>dat := [s ! taken fd h]\<rparr> else mk_ret z
      | _ \<Rightarrow> mk_ret 0)"

lemma stream_kernel_at: "z \<le> 0 \<Longrightarrow> stream_at (stream_kernel fd s z) fd s z"
  by (simp add: stream_at_def stream_kernel_def Let_def)

section \<open>What one line is\<close>

text \<open>
  At most \<open>m\<close> bytes: up to a line feed, a carriage return (with the line feed after
  it, if there is one), or the end of the stream. A line end is always stored as one line
  feed. The flag says whether the last receive met the end of the stream.
\<close>

fun http_line :: "nat \<Rightarrow> bytes \<Rightarrow> bytes \<times> bytes \<times> bool" where
  "http_line 0 s = ([], s, False)"
| "http_line (Suc m) [] = ([], [], True)"
| "http_line (Suc m) (c # s) =
     (if c = LF then ([LF], s, False)
      else if c = CR then
        (case s of [] \<Rightarrow> ([LF], [], True)
         | d # s' \<Rightarrow> if d = LF then ([LF], s', False) else ([LF], s, False))
      else (let (l, r, e) = http_line m s in (c # l, r, e)))"

lemma http_line_numeral [simp]:
  "http_line (numeral v) [] = ([], [], True)"
  "http_line (numeral v) (c # s) =
     (if c = LF then ([LF], s, False)
      else if c = CR then
        (case s of [] \<Rightarrow> ([LF], [], True)
         | d # s' \<Rightarrow> if d = LF then ([LF], s', False) else ([LF], s, False))
      else (let (l, r, e) = http_line (pred_numeral v) s in (c # l, r, e)))"
  by (simp_all add: numeral_eq_Suc)

lemma http_line_length: "http_line m s = (l, r, e) \<Longrightarrow> length l \<le> m \<and> length l + length r \<le> length s"
  by (induction m s arbitrary: l r e rule: http_line.induct)
    (fastforce split: if_splits list.splits prod.splits simp: Let_def)+

lemma http_line_progress: "http_line (Suc m) s = (l, r, e) \<Longrightarrow> s \<noteq> [] \<Longrightarrow> length r < length s"
  using http_line_length[of "Suc m" s l r e]
  by (cases s) (auto split: if_splits list.splits prod.splits simp: Let_def)

text \<open>A line with its terminator comes back whole, and the rest of the stream is left.\<close>

lemma http_line_terminated:
  assumes "LF \<notin> set w" and "CR \<notin> set w" and "length w < m"
  shows "http_line m (w @ CR # LF # t) = (w @ [LF], t, False)"
    and "http_line m (w @ LF # t) = (w @ [LF], t, False)"
  using assms
proof (induction w arbitrary: m)
  case Nil
  {
    case 1
    then show ?case by (cases m) auto
  next
    case 2
    then show ?case by (cases m) auto
  }
next
  case (Cons c w)
  {
    case 1
    then show ?case using Cons.IH(1)[of "m - 1"] by (cases m) auto
  next
    case 2
    then show ?case using Cons.IH(2)[of "m - 1"] by (cases m) auto
  }
qed

section \<open>get_line implements it\<close>

lemma gl_cr_stream:
  assumes st: "stream_at k fd s z" and u: "drop (taken fd h) s = u"
  shows "\<exists>h'. gl_cr k fd c 1 h =
     (Inr (if c = CR then LF else c, if c = CR \<and> u = [] then z else 1), h') \<and>
     drop (taken fd h') s = (if c = CR \<and> u \<noteq> [] \<and> hd u = LF then tl u else u)"
proof (cases "c = CR")
  case False
  with u show ?thesis by (simp add: gl_cr_def io_simps)
next
  case True
  let ?h = "(CRecv fd 1 True, k h (CRecv fd 1 True)) # h"
  have same: "drop (taken fd ?h) s = u" using u by simp
  show ?thesis
  proof (cases u)
    case Nil
    with stream_at_end[OF st] u True same show ?thesis
      using st by (auto simp: gl_cr_def io_simps Let_def stream_at_def)
  next
    case (Cons d u')
    note pk = stream_at_more[OF st, of h d u', unfolded u, OF Cons]
    note rd = stream_at_more[OF st, of ?h d u', unfolded same, OF Cons]
    show ?thesis
      using True Cons pk rd same by (auto simp: gl_cr_def io_simps Let_def)
  qed
qed

lemma gl_loop_stream:
  assumes "stream_at k fd s z" and "drop (taken fd h) s = u"
    and "c \<noteq> LF" and "i + m < length buf" and "http_line m u = (l, r, e)"
  shows "\<exists>h'. gl_loop k fd m i buf c n h =
     (Inr (i + length l, take i buf @ l @ drop (i + length l) buf,
       if e then Some z else if l = [] then n else Some 1), h') \<and>
     drop (taken fd h') s = r"
  using assms(2-)
proof (induction m arbitrary: h u c i buf l r e n)
  case 0
  then show ?case by (simp add: io_simps)
next
  case (Suc m)
  note st = assms(1)
  let ?q = "k h (CRecv fd 1 False)"
  let ?h = "(CRecv fd 1 False, ?q) # h"
  show ?case
  proof (cases u)
    case Nil
    then have "ret ?q = z" using stream_at_end[OF st] Suc.prems(1) by simp
    moreover have "z \<le> 0" using st by (simp add: stream_at_def)
    ultimately show ?thesis
      using Suc.prems Nil st by (auto simp: io_simps)
  next
    case (Cons b u')
    note rd = stream_at_more[OF st, of h b u', unfolded Suc.prems(1), OF Cons]
    have rest: "drop (taken fd ?h) s = u'" using rd by simp
    from gl_cr_stream[OF st rest, of b] obtain h1 where
      cr: "gl_cr k fd b 1 ?h =
        (Inr (if b = CR then LF else b, if b = CR \<and> u' = [] then z else 1), h1)"
      and r1: "drop (taken fd h1) s = (if b = CR \<and> u' \<noteq> [] \<and> hd u' = LF then tl u' else u')"
      by blast
    have buf: "take (Suc i) (buf[i := x]) @ ys = take i buf @ x # ys"
      "drop (Suc i + j) (buf[i := x]) = drop (Suc (i + j)) buf" for x ys j
      using Suc.prems(3) by (simp_all add: take_Suc_conv_app_nth)
    show ?thesis
    proof (cases "b = LF \<or> b = CR")
      case True
      have line: "l = [LF]" "e \<longleftrightarrow> b = CR \<and> u' = []"
        "r = (if b = CR \<and> u' \<noteq> [] \<and> hd u' = LF then tl u' else u')"
        using Suc.prems(4) Cons True by (auto split: list.splits if_splits)
      have stopped: "gl_loop k fd m (Suc i) b1 LF n1 h1 = (Inr (Suc i, b1, n1), h1)" for b1 n1
        by (cases m) (simp_all add: io_simps)
      have "(if b = CR then LF else b) = LF" using True by auto
      moreover have "buf[i := LF] = take i buf @ [LF] @ drop (i + 1) buf"
        using Suc.prems(3) by (simp add: upd_conv_take_nth_drop)
      ultimately show ?thesis
        using Suc.prems(2,3) rd cr r1 stopped line by (simp add: io_simps)
    next
      case False
      obtain l' r' e' where line: "http_line m u' = (l', r', e')" by (cases "http_line m u'")
      have "Suc i + m < length (buf[i := b])" using Suc.prems(3) by simp
      from Suc.IH[OF _ _ this line, of h1 b "Some 1"] False r1
      obtain h2 where h2: "gl_loop k fd m (Suc i) (buf[i := b]) b (Some 1) h1 =
          (Inr (Suc i + length l', take (Suc i) (buf[i := b]) @ l' @ drop (Suc i + length l') (buf[i := b]),
            if e' then Some z else if l' = [] then Some 1 else Some 1), h2)"
        "drop (taken fd h2) s = r'" by auto
      show ?thesis
        using Suc.prems Cons rd cr False line h2 buf by (auto simp: io_simps)
    qed
  qed
qed

text \<open>
  What \<^verbatim>\<open>get_line\<close> leaves: the line and its terminator in the buffer, the
  line's length or \<open>-1\<close> as its result, and the rest of the stream unread.
\<close>

lemma get_line_stream:
  assumes "stream_at k fd s z" and "drop (taken fd h) s = u"
    and "1 < sz" and "sz = int (length buf)" and "http_line (nat (sz - 1)) u = (l, r, e)"
  shows "\<exists>h'. get_line k fd buf sz h =
     (Inr (if e \<and> z = -1 then -1 else int (length l), l @ NUL # drop (Suc (length l)) buf), h') \<and>
     drop (taken fd h') s = r"
proof -
  let ?m = "nat (sz - 1)"
  have bnd: "0 + ?m < length buf" and pos: "?m = Suc (?m - 1)" using assms(3,4) by auto
  from gl_loop_stream[OF assms(1,2) _ bnd assms(5), of NUL None] obtain h' where
    run: "gl_loop k fd ?m 0 buf NUL None h =
      (Inr (length l, l @ drop (length l) buf,
        if e then Some z else if l = [] then None else Some 1), h')"
    and rest: "drop (taken fd h') s = r" by auto
  have len: "length l < length buf"
    using http_line_length[OF assms(5)] bnd by simp
  have "e \<or> l \<noteq> []"
    using assms(5) by (subst (asm) pos) (cases u; auto split: if_splits list.splits prod.splits simp: Let_def)
  moreover have "(l @ drop (length l) buf)[length l := NUL] = l @ NUL # drop (Suc (length l)) buf"
    using len by (simp add: list_update_append Cons_nth_drop_Suc [symmetric])
  ultimately show ?thesis
    using run rest len by (auto simp: get_line_def io_simps)
qed

section \<open>Skipping the header lines\<close>

text \<open>
  The inner loop of \<^verbatim>\<open>do_read\<close>, with a bound on its rounds: a zeroed buffer
  of 1024 bytes per round, until a line starts with a line feed or
  \<^verbatim>\<open>get_line\<close> returns \<open>-1\<close>.
\<close>

fun skip_headers :: "nat \<Rightarrow> kernel \<Rightarrow> int \<Rightarrow> unit io" where
  "skip_headers 0 k fd = halt Fuel"
| "skip_headers (Suc n) k fd =
     bnd (get_line k fd (replicate 1024 NUL) 1024) (\<lambda>(len, buf).
       if buf ! 0 = LF \<or> len = -1 then pure () else skip_headers n k fd)"

fun skip_ref :: "nat \<Rightarrow> int \<Rightarrow> bytes \<Rightarrow> bytes option" where
  "skip_ref 0 z s = None"
| "skip_ref (Suc n) z s =
     (let (l, r, e) = http_line 1023 s
      in if take 1 l = [LF] \<or> (e \<and> z = -1) then Some r else skip_ref n z r)"

lemma skip_headers_stream:
  assumes "stream_at k fd s z" and "drop (taken fd h) s = u"
  shows "\<exists>h'. skip_headers n k fd h =
     (case skip_ref n z u of None \<Rightarrow> Inl Fuel | Some r \<Rightarrow> Inr (), h') \<and>
     (\<forall>r. skip_ref n z u = Some r \<longrightarrow> drop (taken fd h') s = r)"
  using assms(2)
proof (induction n arbitrary: h u)
  case 0
  then show ?case by (simp add: io_simps)
next
  case (Suc n)
  obtain l r e where line: "http_line 1023 u = (l, r, e)" by (cases "http_line 1023 u")
  define buf where "buf = l @ NUL # drop (Suc (length l)) (replicate 1024 NUL)"
  define len where "len = (if e \<and> z = -1 then -1 else int (length l))"
  have "\<exists>h'. get_line k fd (replicate 1024 NUL) 1024 h = (Inr (len, buf), h') \<and> drop (taken fd h') s = r"
    unfolding buf_def len_def
    by (rule get_line_stream[OF assms(1) Suc.prems]) (simp_all add: line del: replicate.simps)
  then obtain h1 where h1: "get_line k fd (replicate 1024 NUL) 1024 h = (Inr (len, buf), h1)"
    and rest: "drop (taken fd h1) s = r" by blast
  have "buf ! 0 = LF \<longleftrightarrow> take 1 l = [LF]" by (cases l) (auto simp: buf_def)
  moreover have "len = -1 \<longleftrightarrow> e \<and> z = -1" by (simp add: len_def)
  ultimately have step: "skip_headers (Suc n) k fd h =
      (if take 1 l = [LF] \<or> (e \<and> z = -1) then (Inr (), h1) else skip_headers n k fd h1)"
    by (simp add: io_simps h1)
  have ref: "skip_ref (Suc n) z u =
      (if take 1 l = [LF] \<or> (e \<and> z = -1) then Some r else skip_ref n z r)"
    by (simp add: line)
  show ?case
    unfolding step ref using Suc.IH[OF rest] rest by auto
qed

text \<open>On a non-blocking socket whose peer stays connected, one round per byte is enough.\<close>

lemma skip_ref_enough: "length s < n \<Longrightarrow> \<exists>r. skip_ref n (-1) s = Some r"
proof (induction n arbitrary: s)
  case 0
  then show ?case by simp
next
  case (Suc n)
  obtain l r e where line: "http_line 1023 s = (l, r, e)" by (cases "http_line 1023 s")
  show ?case
  proof (cases "take 1 l = [LF] \<or> e")
    case True
    with line show ?thesis by simp
  next
    case False
    have "s \<noteq> []" using False line by auto
    with line http_line_progress[of 1022 s l r e] have "length r < length s" by simp
    with Suc.IH[of r] Suc.prems line False show ?thesis by simp
  qed
qed

lemma http_line_no_eol:
  assumes "LF \<notin> set s" and "CR \<notin> set s"
  shows "\<exists>l r e. http_line m s = (l, r, e) \<and> LF \<notin> set l \<and> set r \<subseteq> set s"
  using assms
proof (induction m s rule: http_line.induct)
  case (3 m c s)
  then show ?case by (fastforce simp: Let_def)
qed auto

text \<open>When the peer has closed without a blank line, no number of rounds is enough.\<close>

lemma skip_ref_closed: "LF \<notin> set s \<Longrightarrow> CR \<notin> set s \<Longrightarrow> skip_ref n 0 s = None"
proof (induction n arbitrary: s)
  case 0
  then show ?case by simp
next
  case (Suc n)
  from http_line_no_eol[OF Suc.prems, where m = 1023] obtain l r e where
    l: "http_line 1023 s = (l, r, e)" "LF \<notin> set l" "set r \<subseteq> set s" by blast
  then have "skip_ref n 0 r = None" using Suc by (meson subsetD)
  moreover have "take 1 l \<noteq> [LF]" using l(2) by (cases l) auto
  ultimately show ?case using l(1) by simp
qed

text \<open>A header block: lines that fit the buffer, each ended by CR LF, and a blank line.\<close>

fun header_block :: "bytes list \<Rightarrow> bytes" where
  "header_block [] = [CR, LF]"
| "header_block (w # ws) = w @ CR # LF # header_block ws"

definition header_line :: "bytes \<Rightarrow> bool" where
  "header_line w \<longleftrightarrow> w \<noteq> [] \<and> LF \<notin> set w \<and> CR \<notin> set w \<and> length w < 1023"

lemma skip_ref_block:
  "(\<forall>w \<in> set ws. header_line w) \<Longrightarrow> length ws < n \<Longrightarrow> skip_ref n z (header_block ws @ body) = Some body"
proof (induction ws arbitrary: n)
  case Nil
  then show ?case by (cases n) (simp_all add: numeral_eq_Suc)
next
  case (Cons w ws)
  then obtain n' where n: "n = Suc n'" "length ws < n'" by (cases n) auto
  have w: "w \<noteq> []" "LF \<notin> set w" "CR \<notin> set w" "length w < 1023"
    using Cons.prems(1) by (auto simp: header_line_def)
  then have "hd w \<noteq> LF" by (metis hd_in_set)
  with w have "take 1 (w @ [LF]) \<noteq> [LF]" by (cases w) auto
  moreover have "http_line 1023 (w @ CR # LF # header_block ws @ body) =
      (w @ [LF], header_block ws @ body, False)"
    by (rule http_line_terminated(1)) (use w in auto)
  ultimately show ?case
    using Cons n by simp
qed

section \<open>What reading lines keeps\<close>

text \<open>Reading lines makes receives only: what they keep, it keeps.\<close>

lemma wp_gl_loop:
  "(\<And>h r pk. I h \<Longrightarrow> I ((CRecv fd 1 pk, r) # h)) \<Longrightarrow> I h \<Longrightarrow>
   wp (gl_loop k fd m i buf c n) (\<lambda>_. I) any_stop h"
  by (induction k fd m i buf c n arbitrary: h rule: gl_loop.induct)
    (auto simp: wp_simps gl_cr_def Let_def)

lemma wp_get_line:
  "(\<And>h r pk. I h \<Longrightarrow> I ((CRecv fd 1 pk, r) # h)) \<Longrightarrow> I h \<Longrightarrow>
   wp (get_line k fd buf sz) (\<lambda>_. I) any_stop h"
  unfolding get_line_def wp_bnd
  by (rule wp_mono[OF wp_gl_loop[of I]]) (auto simp: wp_simps split: option.splits)

lemma wp_skip_headers:
  "(\<And>h r pk. I h \<Longrightarrow> I ((CRecv fd 1 pk, r) # h)) \<Longrightarrow> I h \<Longrightarrow>
   wp (skip_headers n k fd) (\<lambda>_. I) any_stop h"
proof (induction n arbitrary: h)
  case 0
  then show ?case by (simp add: wp_simps)
next
  case (Suc n)
  then show ?case
    unfolding skip_headers.simps wp_bnd
    by (intro wp_mono[OF wp_get_line[of I]]) (auto simp: wp_simps)
qed

end
