(* ===== verification/Http_Server.thy ===== *)
theory Http_Server
  imports Http_Line
begin

text \<open>
  The server of \<^verbatim>\<open>http/myhttpd.c\<close>: its responses, the requests it serves,
  the connections it accepts, and its epoll loop. Local arrays start with arbitrary bytes,
  which are an argument (\<open>junk\<close>): the code reads some of them before it writes them.
  The loops that may run without end take a bound.
\<close>

section \<open>Responses\<close>

definition crlf :: bytes where "crlf = [CR, LF]"

definition closefd :: "kernel \<Rightarrow> int \<Rightarrow> int \<Rightarrow> unit io" where
  "closefd k cfd efd =
     bnd (sys k (CEpollCtl efd CtlDel cfd 0 0)) (\<lambda>r.
       if ret r = -1 then halt (Exit 1)
       else bnd (sys k (CClose cfd)) (\<lambda>_. pure ()))"

text \<open>
  \<^verbatim>\<open>sprintf\<close> at the start of the buffer twice, then twice at its end.
\<close>

definition response_buf :: "int \<Rightarrow> bytes \<Rightarrow> bytes \<Rightarrow> bytes io" where
  "response_buf no disp ty =
     bnd (lift (store_at 0 (''HTTP/1.1 '' @ dec_int no @ '' '' @ disp @ '' '' @ crlf)
                 (replicate 1024 NUL))) (\<lambda>b.
     bnd (lift (store_at 0 (''Content-Type: '' @ ty @ '' '' @ crlf) b)) (\<lambda>b.
     bnd (lift (store_at (length (c_str b)) (''Content-Length:'' @ dec_int (-1) @ '' '' @ crlf) b)) (\<lambda>b.
     lift (store_at (length (c_str b)) crlf b))))"

definition sendResponse :: "kernel \<Rightarrow> int \<Rightarrow> int \<Rightarrow> bytes \<Rightarrow> bytes \<Rightarrow> int \<Rightarrow> unit io" where
  "sendResponse k cfd no disp ty len =
     bnd (response_buf no disp ty) (\<lambda>b.
     bnd (wr k (CSend cfd (c_str b))) (\<lambda>_. pure ()))"

definition html_404 :: bytes where
  "html_404 = ''<!DOCTYPE html><html> <title> 404 not found </title> <body background='' @ [CHR 0x22]
     @ ''0xffff'' @ [CHR 0x22] @ ''><div>404 NOT Found</div><hr></body></html>''"

definition senderror :: "kernel \<Rightarrow> int \<Rightarrow> unit io" where
  "senderror k cfd =
     bnd (response_buf 200 ''OK'' ''text/html'') (\<lambda>b.
     bnd (lift (store_at (length (c_str b)) html_404 b)) (\<lambda>b.
     bnd (wr k (CSend cfd (c_str b))) (\<lambda>_. pure ())))"

fun send_loop :: "nat \<Rightarrow> kernel \<Rightarrow> int \<Rightarrow> int \<Rightarrow> unit io" where
  "send_loop 0 k cfd fd = halt Fuel"
| "send_loop (Suc n) k cfd fd =
     bnd (sys k (CRead fd 1024)) (\<lambda>r.
       if 0 < ret r
       then bnd (wr k (CSend cfd (take (nat (ret r)) (dat r)))) (\<lambda>q.
         if ret q = -1
         then if err q = EAGAIN then send_loop n k cfd fd
              else if err q = EINTR then send_loop n k cfd fd
              else halt (Exit 1)
         else send_loop n k cfd fd)
       else pure ())"

definition sendfile :: "nat \<Rightarrow> kernel \<Rightarrow> int \<Rightarrow> bytes \<Rightarrow> unit io" where
  "sendfile n k cfd file =
     bnd (sys k (COpen file)) (\<lambda>r.
       if ret r = -1 then senderror k cfd
       else bnd (send_loop n k cfd (ret r)) (\<lambda>_.
            bnd (sys k (CClose (ret r))) (\<lambda>_. pure ())))"

section \<open>Requests\<close>

record junk =
  j_line :: bytes
  j_method :: bytes
  j_path :: bytes
  j_protocol :: bytes
  j_name :: bytes
  j_extend :: bytes
  j_type :: bytes

definition junk_ok :: "junk \<Rightarrow> bool" where
  "junk_ok j \<longleftrightarrow> length (j_line j) = 1024 \<and> length (j_method j) = 16 \<and> length (j_path j) = 256 \<and>
     length (j_protocol j) = 16 \<and> length (j_name j) = 256 \<and> length (j_extend j) = 10 \<and>
     length (j_type j) = 30"

text \<open>Scanned fields go to the arrays in order; arrays without a field keep their bytes.\<close>

fun store_fields :: "bytes list \<Rightarrow> bytes list \<Rightarrow> stop + bytes list" where
  "store_fields (f # fs) (b # bs) =
     (case store_at 0 f b of Inl e \<Rightarrow> Inl e
      | Inr b' \<Rightarrow> (case store_fields fs bs of Inl e \<Rightarrow> Inl e | Inr bs' \<Rightarrow> Inr (b' # bs')))"
| "store_fields fs bs = Inr bs"

definition getfileType :: "bytes \<Rightarrow> bytes \<Rightarrow> bytes \<Rightarrow> bytes \<Rightarrow> stop + bytes" where
  "getfileType filename name ext type =
     (case store_fields (sscanf [NotChar CHR ''.'', Lit CHR ''.'', Word] filename) [name, ext] of
        Inl e \<Rightarrow> Inl e
      | Inr bufs \<Rightarrow>
          if \<not> terminated (bufs ! 0) \<or> \<not> terminated (bufs ! 1) then Inl (Undef NoTerminator)
          else (case strncaseeq 3 (bufs ! 1) (''jpg'' @ [NUL]) of
                  None \<Rightarrow> Inl (Undef OutOfBounds)
                | Some True \<Rightarrow> store_at 0 ''image/jpeg'' type
                | Some False \<Rightarrow> store_at 0 ''text/plain; charset=iso-8859-1'' type))"

definition http_request :: "nat \<Rightarrow> kernel \<Rightarrow> junk \<Rightarrow> int \<Rightarrow> bytes \<Rightarrow> unit io" where
  "http_request n k j cfd file =
     bnd (sys k (CStat file)) (\<lambda>r.
       if ret r = -1 then senderror k cfd
       else if regular r
       then bnd (lift (getfileType file (j_name j) (j_extend j) (j_type j))) (\<lambda>type.
            bnd (sendResponse k cfd 200 ''OK'' (c_str type) (st_size r)) (\<lambda>_.
            sendfile n k cfd file))
       else pure ())"

definition request_format :: "directive list" where
  "request_format = [NotChar CHR '' '', White, NotChar CHR '' '', White, NotChar CHR '' '']"

definition do_read :: "nat \<Rightarrow> kernel \<Rightarrow> junk \<Rightarrow> int \<Rightarrow> int \<Rightarrow> unit io" where
  "do_read n k j cfd efd =
     bnd (get_line k cfd (j_line j) 1024) (\<lambda>(len, line).
       if len = 0 then closefd k cfd efd
       else bnd (lift (store_fields (sscanf request_format (c_str line))
                   [j_method j, j_path j, j_protocol j])) (\<lambda>bufs.
         if \<not> list_all terminated bufs then halt (Undef NoTerminator)
         else bnd (skip_headers n k cfd) (\<lambda>_.
           case strncaseeq 3 (bufs ! 0) (''GET'' @ [NUL]) of
             None \<Rightarrow> halt (Undef OutOfBounds)
           | Some False \<Rightarrow> pure ()
           | Some True \<Rightarrow>
               if terminated (drop 1 (bufs ! 1))
               then http_request n k j cfd (c_str (drop 1 (bufs ! 1)))
               else halt (Undef NoTerminator))))"

section \<open>Connections and the event loop\<close>

definition init_listen_fd :: "kernel \<Rightarrow> int \<Rightarrow> int \<Rightarrow> int io" where
  "init_listen_fd k port efd =
     bnd (sys k (CSocket AF_INET SOCK_STREAM 0)) (\<lambda>r. let lfd = ret r in
       if lfd = -1 then halt (Exit 1)
       else bnd (sys k (CSetReuse lfd)) (\<lambda>_.
       bnd (sys k (CBind lfd (port mod 65536))) (\<lambda>r.
       if ret r = -1 then halt (Exit 1)
       else bnd (sys k (CListen lfd 128)) (\<lambda>r.
       if ret r = -1 then halt (Exit 1)
       else bnd (sys k (CEpollCtl efd CtlAdd lfd EPOLLIN lfd)) (\<lambda>r.
       if ret r = -1 then halt (Exit 1) else pure lfd)))))"

definition do_accept :: "kernel \<Rightarrow> int \<Rightarrow> int \<Rightarrow> unit io" where
  "do_accept k lfd efd =
     bnd (sys k (CAccept lfd)) (\<lambda>r. let cfd = ret r in
       if cfd = -1 then halt (Exit 1)
       else bnd (sys k (CGetFlags cfd)) (\<lambda>_.
       bnd (sys k (CSetNonblock cfd)) (\<lambda>_.
       bnd (sys k (CEpollCtl efd CtlAdd cfd (EPOLLIN OR EPOLLET) cfd)) (\<lambda>r.
       if ret r = -1 then halt (Exit 1) else pure ()))))"

definition http_event :: "nat \<Rightarrow> kernel \<Rightarrow> junk \<Rightarrow> int \<Rightarrow> int \<Rightarrow> int \<times> 32 word \<Rightarrow> unit \<Rightarrow> unit io" where
  "http_event n k j lfd efd ev u =
     (if snd ev AND EPOLLIN = 0 then pure ()
      else if fst ev = lfd then do_accept k lfd efd
      else do_read n k j (fst ev) efd)"

definition http_round :: "nat \<Rightarrow> kernel \<Rightarrow> junk \<Rightarrow> int \<Rightarrow> int \<Rightarrow> unit \<Rightarrow> unit io" where
  "http_round n k j lfd efd u =
     bnd (sys k (CEpollWait efd 2048 (-1))) (\<lambda>r.
       if ret r = -1 then halt (Exit 1)
       else for_io (take (nat (ret r)) (evs r)) (http_event n k j lfd efd) ())"

definition epoll_run :: "nat \<Rightarrow> nat \<Rightarrow> kernel \<Rightarrow> junk \<Rightarrow> int \<Rightarrow> unit io" where
  "epoll_run rounds n k j port =
     bnd (sys k (CEpollCreate 2048)) (\<lambda>r. let efd = ret r in
       if efd = -1 then halt (Exit 1)
       else bnd (init_listen_fd k port efd) (\<lambda>lfd.
            times rounds (http_round n k j lfd efd) ()))"

text \<open>
  \<^verbatim>\<open>main\<close>, on the arguments after the program's name. Fewer than two only
  print the usage: \<^verbatim>\<open>atoi\<close> then gets a null pointer, or
  \<^verbatim>\<open>chdir\<close> does.
\<close>

definition http_main :: "nat \<Rightarrow> nat \<Rightarrow> kernel \<Rightarrow> junk \<Rightarrow> bytes list \<Rightarrow> unit io" where
  "http_main rounds n k j args =
     (case args of
        [] \<Rightarrow> halt (Undef NullDeref)
      | p # rest \<Rightarrow>
          bnd (sys k (CChdir (case rest of [] \<Rightarrow> None | d # _ \<Rightarrow> Some d))) (\<lambda>r.
            if ret r = -1 then halt (Exit 1)
            else epoll_run rounds n k j (atoi p)))"

end
