(* ===== verification/Http_Props.thy ===== *)
theory Http_Props
  imports Http_Server
begin

text \<open>
  What the server of \<^verbatim>\<open>http/myhttpd.c\<close> does with a request: the bytes of
  its responses, the types it can send, the files it sends, the requests it parses, and
  the descriptors it keeps.
\<close>

section \<open>Responses\<close>

lemma store_at_fits:
  "off + length s < length buf \<Longrightarrow> \<exists>b. store_at off s buf = Inr b \<and> length b = length buf"
  by (auto simp: store_at_def)

definition header_bytes :: "bytes \<Rightarrow> bytes" where
  "header_bytes ty = ''Content-Type: '' @ ty @ '' '' @ crlf @ ''Content-Length:-1 '' @ crlf @ crlf"

lemma length_crlf [simp]: "length crlf = 2" and NUL_crlf [simp]: "NUL \<notin> set crlf"
  by (simp_all add: crlf_def)

lemma dec_int_minus_1: "dec_int (-1) = ''-1''"
  by code_simp

lemma response_buf_run:
  assumes ty: "NUL \<notin> set ty" "length ty < 900" and st: "length disp + length (dec_int no) < 900"
  shows "\<exists>b. response_buf no disp ty h = (Inr b, h) \<and> c_str b = header_bytes ty \<and> length b = 1024"
proof -
  from store_at_fits[of 0 "''HTTP/1.1 '' @ dec_int no @ '' '' @ disp @ '' '' @ crlf" "replicate 1024 NUL"] st
  obtain b1 where b1: "store_at 0 (''HTTP/1.1 '' @ dec_int no @ '' '' @ disp @ '' '' @ crlf)
      (replicate 1024 NUL) = Inr b1" "length b1 = 1024" by auto
  let ?s2 = "''Content-Type: '' @ ty @ '' '' @ crlf"
  from store_at_fits[of 0 ?s2 b1] b1 ty
  obtain b2 where b2: "store_at 0 ?s2 b1 = Inr b2" "length b2 = 1024" by auto
  have c2: "c_str b2 = ?s2" using store_at_0[OF b2(1)] ty by simp
  let ?s3 = "''Content-Length:'' @ dec_int (-1) @ '' '' @ crlf"
  from store_at_fits[of "length (c_str b2)" ?s3 b2] b2 c2 ty
  obtain b3 where b3: "store_at (length (c_str b2)) ?s3 b2 = Inr b3" "length b3 = 1024"
    by (auto simp: dec_int_minus_1)
  have c3: "c_str b3 = ?s2 @ ?s3" using store_at_end[OF b3(1)] c2 by simp
  from store_at_fits[of "length (c_str b3)" crlf b3] b3 c3 ty
  obtain b4 where b4: "store_at (length (c_str b3)) crlf b3 = Inr b4" "length b4 = 1024"
    by (auto simp: dec_int_minus_1)
  have "c_str b4 = header_bytes ty"
    using store_at_end[OF b4(1)] c3 by (simp add: header_bytes_def dec_int_minus_1)
  with b1 b2 b3 b4 show ?thesis by (simp add: response_buf_def io_simps)
qed

lemma getfileType_jpeg:
  assumes "length type = 30" and "getfileType file name ext type = Inr t"
  shows "c_str t = ''image/jpeg''"
  using assms
  by (auto simp: getfileType_def store_at_def split: sum.splits if_splits option.splits bool.splits)
    (auto simp: c_str_def)

lemma getfileType_length:
  assumes "getfileType file name ext type = Inr t"
  shows "length t = length type"
  using assms
  by (auto simp: getfileType_def split: sum.splits if_splits option.splits bool.splits dest: store_at_length)

lemma takeWhile_not_in: "d \<notin> set w \<Longrightarrow> takeWhile (\<lambda>c. c \<noteq> d) (w @ d # t) = w"
  and dropWhile_not_in: "d \<notin> set w \<Longrightarrow> dropWhile (\<lambda>c. c \<noteq> d) (w @ d # t) = d # t"
  by (induction w) auto

text \<open>A file name: a stem and an extension that fit their arrays.\<close>

definition file_name_ok :: "bytes \<Rightarrow> bytes \<Rightarrow> bool" where
  "file_name_ok b x \<longleftrightarrow> b \<noteq> [] \<and> length b < 256 \<and> CHR ''.'' \<notin> set b \<and> NUL \<notin> set b \<and>
     3 \<le> length x \<and> length x < 10 \<and> (\<forall>c \<in> set x. \<not> is_space c \<and> c \<noteq> NUL)"

definition is_jpg :: "bytes \<Rightarrow> bool" where
  "is_jpg x \<longleftrightarrow> strncaseeq 3 x ''jpg'' = Some True"

lemma getfileType_scan:
  assumes "junk_ok j" and ok: "file_name_ok b x"
  shows "getfileType (b @ CHR ''.'' # x) (j_name j) (j_extend j) (j_type j) =
    (if is_jpg x then Inr (''image/jpeg'' @ NUL # drop (Suc (length ''image/jpeg'')) (j_type j)) else Inl (Undef OutOfBounds))"
proof -
  obtain c1 c2 c3 y where x: "x = c1 # c2 # c3 # y"
    using ok unfolding file_name_ok_def by (metis Suc_le_length_iff numeral_3_eq_3)
  have w: "dropWhile is_space x = x" "takeWhile (\<lambda>c. \<not> is_space c) x = x"
    using ok x by (auto simp: file_name_ok_def)
  have f: "sscanf [NotChar CHR ''.'', Lit CHR ''.'', Word] (b @ CHR ''.'' # x) = [b, x]"
    using ok x by (simp add: file_name_ok_def takeWhile_not_in dropWhile_not_in Let_def w)
  have sf: "store_fields [b, x] [j_name j, j_extend j] =
      Inr [b @ NUL # drop (Suc (length b)) (j_name j), x @ NUL # drop (Suc (length x)) (j_extend j)]"
    using assms by (simp add: store_at_def junk_ok_def file_name_ok_def)
  have "strncaseeq 3 (x @ t) (''jpg'' @ [NUL]) = Some (is_jpg x)" for t
    using ok x by (auto simp: is_jpg_def file_name_ok_def numeral_3_eq_3 split: if_splits)
  then show ?thesis
    using assms(1) unfolding getfileType_def f sf by (simp add: store_at_def junk_ok_def)
qed

section \<open>Sending a file\<close>

text \<open>The chunks a history has read from a descriptor, and the payloads it has handed to \<^verbatim>\<open>send\<close>.\<close>

fun chunks :: "int \<Rightarrow> history \<Rightarrow> bytes list" where
  "chunks fd [] = []"
| "chunks fd ((c, r) # h) = chunks fd h @ (case c of
     CRead f n \<Rightarrow> if f = fd \<and> 0 < ret r then [take (nat (ret r)) (dat r)] else [] | _ \<Rightarrow> [])"

fun payloads :: "int \<Rightarrow> history \<Rightarrow> bytes list" where
  "payloads fd [] = []"
| "payloads fd ((c, r) # h) = payloads fd h @ (case c of
     CSend f b \<Rightarrow> if f = fd then [b] else [] | _ \<Rightarrow> [])"

text \<open>
  Every chunk read is handed to \<^verbatim>\<open>send\<close> exactly once, whatever
  \<^verbatim>\<open>send\<close> answers.
\<close>

lemma send_loop_once:
  "\<exists>ps. payloads cfd (snd (send_loop n k cfd fd h)) = payloads cfd h @ ps \<and>
        chunks fd (snd (send_loop n k cfd fd h)) = chunks fd h @ ps"
proof (induction n arbitrary: h)
  case 0
  show ?case by (simp add: io_simps)
next
  case (Suc n)
  let ?r = "k h (CRead fd 1024)"
  let ?b = "take (nat (ret ?r)) (dat ?r)"
  let ?h1 = "(CRead fd 1024, ?r) # h"
  let ?h2 = "(CSend cfd ?b, k ?h1 (CSend cfd ?b)) # ?h1"
  obtain ps where "payloads cfd (snd (send_loop n k cfd fd ?h2)) = payloads cfd ?h2 @ ps"
    "chunks fd (snd (send_loop n k cfd fd ?h2)) = chunks fd ?h2 @ ps"
    using Suc.IH by blast
  then show ?case by (auto simp: io_simps)
qed

text \<open>
  What the file system holds under a name, and the file and offset behind a descriptor: \<^verbatim>\<open>open\<close>
  starts at the beginning, every read moves on.
\<close>

datatype file_state = Missing | Special | Regular bytes

type_synonym site = "bytes \<Rightarrow> file_state"

fun opened :: "int \<Rightarrow> history \<Rightarrow> (bytes \<times> nat) option" where
  "opened fd [] = None"
| "opened fd ((c, r) # h) =
     (case c of
        COpen f \<Rightarrow> if ret r = fd then Some (f, 0) else opened fd h
      | CRead g n \<Rightarrow> if g = fd then map_option (\<lambda>(f, p). (f, p + nat (ret r))) (opened fd h) else opened fd h
      | CClose g \<Rightarrow> if g = fd then None else opened fd h
      | _ \<Rightarrow> opened fd h)"

lemma opened_simps [simp]:
  "opened fd ((COpen f, r) # h) = (if ret r = fd then Some (f, 0) else opened fd h)"
  "opened fd ((CRead g n, r) # h) =
     (if g = fd then map_option (\<lambda>(f, p). (f, p + nat (ret r))) (opened fd h) else opened fd h)"
  "opened fd ((CSend c b, r) # h) = opened fd h"
  by simp_all

text \<open>
  A file system that holds a site and does not fail: \<^verbatim>\<open>stat\<close> says what a name is, regular files
  can be opened, and reading gives some bytes at the offset until the end of the file.
\<close>

definition file_system :: "kernel \<Rightarrow> site \<Rightarrow> bool" where
  "file_system k site \<longleftrightarrow>
     (\<forall>h f. case site f of
        Missing \<Rightarrow> ret (k h (CStat f)) = -1
      | Special \<Rightarrow> ret (k h (CStat f)) \<noteq> -1 \<and> \<not> regular (k h (CStat f))
      | Regular s \<Rightarrow> ret (k h (CStat f)) \<noteq> -1 \<and> regular (k h (CStat f)) \<and> ret (k h (COpen f)) \<noteq> -1) \<and>
     (\<forall>h fd n f p s. opened fd h = Some (f, p) \<longrightarrow> site f = Regular s \<longrightarrow> 0 < n \<longrightarrow>
        (let r = k h (CRead fd n); u = drop p s in
           0 \<le> ret r \<and> (ret r = 0 \<longleftrightarrow> u = []) \<and> nat (ret r) \<le> min n (length u) \<and> dat r = take (nat (ret r)) u))"

lemma file_systemD:
  assumes "file_system k site"
  shows "site f = Missing \<Longrightarrow> ret (k h (CStat f)) = -1"
    and "site f = Special \<Longrightarrow> ret (k h (CStat f)) \<noteq> -1 \<and> \<not> regular (k h (CStat f))"
    and "site f = Regular s \<Longrightarrow>
      ret (k h (CStat f)) \<noteq> -1 \<and> regular (k h (CStat f)) \<and> ret (k h (COpen f)) \<noteq> -1"
proof -
  have "case site f of
      Missing \<Rightarrow> ret (k h (CStat f)) = -1
    | Special \<Rightarrow> ret (k h (CStat f)) \<noteq> -1 \<and> \<not> regular (k h (CStat f))
    | Regular s \<Rightarrow> ret (k h (CStat f)) \<noteq> -1 \<and> regular (k h (CStat f)) \<and> ret (k h (COpen f)) \<noteq> -1"
    by (rule conjunct1[OF assms[unfolded file_system_def], rule_format])
  then show "site f = Missing \<Longrightarrow> ret (k h (CStat f)) = -1"
    "site f = Special \<Longrightarrow> ret (k h (CStat f)) \<noteq> -1 \<and> \<not> regular (k h (CStat f))"
    "site f = Regular s \<Longrightarrow> ret (k h (CStat f)) \<noteq> -1 \<and> regular (k h (CStat f)) \<and> ret (k h (COpen f)) \<noteq> -1"
    by simp_all
qed

lemma file_system_read:
  assumes "file_system k site" and "opened fd h = Some (f, p)" and "site f = Regular s" and "0 < n"
  shows "0 \<le> ret (k h (CRead fd n))" "ret (k h (CRead fd n)) = 0 \<longleftrightarrow> drop p s = []"
    "nat (ret (k h (CRead fd n))) \<le> length (drop p s)"
    "dat (k h (CRead fd n)) = take (nat (ret (k h (CRead fd n)))) (drop p s)"
  using assms unfolding file_system_def Let_def by auto

text \<open>With room in the socket's buffer the loop sends what is left of the file.\<close>

lemma send_loop_file:
  assumes fs: "file_system k site" "site f = Regular s" and ok: "send_room k cfd B"
    and "opened fd h = Some (f, p)" and "length (drop p s) < n" and "length (sent_on cfd h) + length (drop p s) \<le> B"
  shows "\<exists>h'. send_loop n k cfd fd h = (Inr (), h') \<and> sent_on cfd h' = sent_on cfd h @ drop p s"
  using assms(4-6)
proof (induction n arbitrary: h p)
  case 0
  then show ?case by simp
next
  case (Suc n)
  let ?r = "k h (CRead fd 1024)" and ?u = "drop p s"
  let ?m = "nat (ret ?r)"
  let ?h2 = "(CSend cfd (take ?m ?u), k ((CRead fd 1024, ?r) # h) (CSend cfd (take ?m ?u))) # (CRead fd 1024, ?r) # h"
  have r: "0 \<le> ret ?r" "ret ?r = 0 \<longleftrightarrow> ?u = []" "?m \<le> length ?u" "dat ?r = take ?m ?u"
    by (rule file_system_read[OF fs(1) Suc.prems(1) fs(2)]; simp)+
  show ?case
  proof (cases "?u = []")
    case True
    then show ?thesis using r by (simp add: io_simps)
  next
    case False
    with r have pos: "0 < ret ?r" by linarith
    have all: "ret (k ((CRead fd 1024, ?r) # h) (CSend cfd (take ?m ?u))) = int ?m"
      using ok Suc.prems(3) r(3) by (simp add: send_room_def)
    have "opened fd ?h2 = Some (f, p + ?m)" using Suc.prems(1) by simp
    moreover have "length (drop (p + ?m) s) < n" using pos r(3) Suc.prems(2) False by auto
    moreover have sent: "sent_on cfd ?h2 = sent_on cfd h @ take ?m ?u" using all by simp
    then have "length (sent_on cfd ?h2) + length (drop (p + ?m) s) \<le> B" using Suc.prems(3) r(3) by simp
    ultimately obtain h' where "send_loop n k cfd fd ?h2 = (Inr (), h')"
      "sent_on cfd h' = sent_on cfd ?h2 @ drop (p + ?m) s"
      using Suc.IH by blast
    moreover have "send_loop (Suc n) k cfd fd h = send_loop n k cfd fd ?h2"
      using pos r all by (simp add: io_simps)
    moreover have "take ?m ?u @ drop (p + ?m) s = ?u" by (metis append_take_drop_id drop_drop add.commute)
    ultimately show ?thesis using sent by simp
  qed
qed

section \<open>Requests\<close>

definition request_line :: "bytes \<Rightarrow> bytes \<Rightarrow> bytes \<Rightarrow> bytes" where
  "request_line m p v = m @ CHR '' '' # p @ CHR '' '' # v"

lemma takeWhile_all: "d \<notin> set w \<Longrightarrow> takeWhile (\<lambda>c. c \<noteq> d) w = w"
  by (induction w) auto

lemma dropWhile_hd: "w \<noteq> [] \<Longrightarrow> \<not> P (hd w) \<Longrightarrow> dropWhile P (w @ t) = w @ t"
  by (cases w) auto

lemma sscanf_request_line:
  assumes "m \<noteq> []" "p \<noteq> []" "v \<noteq> []" and "CHR '' '' \<notin> set m" "CHR '' '' \<notin> set p" "CHR '' '' \<notin> set v"
    and "\<not> is_space (hd p)" "\<not> is_space (hd v)"
  shows "sscanf request_format (request_line m p v) = [m, p, v]"
proof -
  have sp: "is_space CHR '' ''" by (simp add: is_space_def)
  have v: "dropWhile is_space v = v" using dropWhile_hd[of v is_space "[]"] assms by simp
  show ?thesis
    using assms sp v dropWhile_hd[of p is_space "CHR '' '' # v"]
    by (simp add: request_format_def request_line_def takeWhile_not_in dropWhile_not_in takeWhile_all Let_def)
qed

text \<open>
  A well-formed GET request is handed to \<^verbatim>\<open>http_request\<close> with the path
  as it stands in the request line, less its first character, once the header lines are
  read; the rest of the stream is not touched.
\<close>

definition get_request :: "bytes \<Rightarrow> bytes list \<Rightarrow> bytes" where
  "get_request p ws = request_line ''GET'' p ''HTTP/1.1'' @ [CR, LF] @ header_block ws"

definition path_ok :: "bytes \<Rightarrow> bool" where
  "path_ok p \<longleftrightarrow> p \<noteq> [] \<and> length p < 256 \<and> (\<forall>c \<in> set p. \<not> is_space c \<and> c \<noteq> NUL)"

lemma path_okD:
  assumes "path_ok p"
  shows "p \<noteq> []" "length p < 256" "CHR '' '' \<notin> set p" "LF \<notin> set p" "CR \<notin> set p" "NUL \<notin> set p"
    "\<not> is_space (hd p)"
  using assms by (auto simp: path_ok_def is_space_def)

lemma store_fields_3:
  assumes "length a < length a'" "length b < length b'" "length c < length c'"
  shows "store_fields [a, b, c] [a', b', c'] =
    Inr [a @ NUL # drop (Suc (length a)) a', b @ NUL # drop (Suc (length b)) b',
         c @ NUL # drop (Suc (length c)) c']"
  using assms by (simp add: store_at_def)

lemma first_line_fields:
  assumes "path_ok p" and "junk_ok j"
  shows "store_fields (sscanf request_format (c_str (request_line ''GET'' p ''HTTP/1.1'' @ LF # NUL # t)))
      [j_method j, j_path j, j_protocol j] =
    Inr [''GET'' @ NUL # drop (Suc (length ''GET'')) (j_method j), p @ NUL # drop (Suc (length p)) (j_path j),
         ''HTTP/1.1'' @ LF # NUL # drop (Suc (length (''HTTP/1.1'' @ [LF]))) (j_protocol j)]"
proof -
  note p = path_okD[OF assms(1)]
  have "c_str (request_line ''GET'' p ''HTTP/1.1'' @ LF # NUL # t) =
      request_line ''GET'' p (''HTTP/1.1'' @ [LF])"
    using c_str_append[of "request_line ''GET'' p ''HTTP/1.1'' @ [LF]" "NUL # t"] p
    by (simp add: request_line_def)
  moreover have "sscanf request_format (request_line ''GET'' p (''HTTP/1.1'' @ [LF])) =
      [''GET'', p, ''HTTP/1.1'' @ [LF]]"
    by (rule sscanf_request_line) (use p in \<open>simp_all add: is_space_def\<close>)
  ultimately show ?thesis
    using store_fields_3[of "''GET''" "j_method j" p "j_path j" "''HTTP/1.1'' @ [LF]" "j_protocol j"]
      p assms(2)
    by (simp add: junk_ok_def)
qed

lemma do_read_get:
  assumes st: "stream_at k cfd s z" and u: "drop (taken cfd h) s = get_request p ws @ body"
    and p: "path_ok p" and j: "junk_ok j" and ws: "\<forall>w \<in> set ws. header_line w" and n: "length ws < n"
    and quiet: "\<And>h r pk. I h \<Longrightarrow> I ((CRecv cfd 1 pk, r) # h)" and i0: "I h"
  shows "\<exists>h'. do_read n k j cfd efd h = http_request n k j cfd (tl p) h' \<and> drop (taken cfd h') s = body \<and> I h'"
proof -
  note pd = path_okD[OF p]
  define l where "l = request_line ''GET'' p ''HTTP/1.1''"
  have len: "length l < 1023" "LF \<notin> set l" "CR \<notin> set l"
    using pd by (auto simp: l_def request_line_def)
  define buf where "buf = (l @ [LF]) @ NUL # drop (Suc (length (l @ [LF]))) (j_line j)"
  have "http_line (nat (1024 - 1)) (get_request p ws @ body) = (l @ [LF], header_block ws @ body, False)"
    using http_line_terminated(1)[OF len(2,3), of 1023 "header_block ws @ body"] len
    by (simp add: get_request_def l_def [symmetric])
  from get_line_stream[OF st u _ _ this, of "j_line j"] j
  obtain h1 where h1: "get_line k cfd (j_line j) 1024 h = (Inr (int (length (l @ [LF])), buf), h1)"
    and r1: "drop (taken cfd h1) s = header_block ws @ body"
    by (auto simp: junk_ok_def buf_def)
  have skip: "skip_ref n z (header_block ws @ body) = Some body"
    using skip_ref_block[OF ws n] .
  from skip_headers_stream[OF st r1, of n] obtain h2 where
    h2: "skip_headers n k cfd h1 = (Inr (), h2)" and r2: "drop (taken cfd h2) s = body"
    unfolding skip by auto
  have i2: "I h2" by (rule wp_InrD[OF wp_skip_headers[of I, OF quiet wp_InrD[OF wp_get_line[of I, OF quiet i0] h1]] h2])
  define bufs where "bufs = [''GET'' @ NUL # drop (Suc (length ''GET'')) (j_method j), p @ NUL # drop (Suc (length p)) (j_path j),
         ''HTTP/1.1'' @ LF # NUL # drop (Suc (length (''HTTP/1.1'' @ [LF]))) (j_protocol j)]"
  have sf: "store_fields (sscanf request_format (c_str buf)) [j_method j, j_path j, j_protocol j] = Inr bufs"
    using first_line_fields[OF p j] by (simp add: buf_def l_def bufs_def)
  have path: "c_str (drop 1 (bufs ! 1)) = tl p" "terminated (drop 1 (bufs ! 1))"
  proof -
    obtain c q where cq: "p = c # q" using pd(1) by (cases p) auto
    then have "NUL \<notin> set q" using pd(6) by simp
    with cq show "c_str (drop 1 (bufs ! 1)) = tl p" "terminated (drop 1 (bufs ! 1))"
      by (simp_all add: bufs_def c_str_terminated)
  qed
  have "strncaseeq 3 (bufs ! 0) (''GET'' @ [NUL]) = Some True"
    by (simp add: bufs_def numeral_3_eq_3 to_lower_def)
  moreover have "list_all terminated bufs" by (simp add: bufs_def)
  ultimately have "do_read n k j cfd efd h = http_request n k j cfd (tl p) h2"
    using path by (simp add: do_read_def io_simps h1 sf h2)
  with r2 i2 show ?thesis by blast
qed

text \<open>
  A client that closes its side right after the request line keeps the server in
  \<^verbatim>\<open>do_read\<close> for good: no bound on the header loop is enough.
\<close>

lemma do_read_half_closed:
  assumes st: "stream_at k cfd s 0" and u: "drop (taken cfd h) s = request_line ''GET'' p ''HTTP/1.1'' @ [CR, LF] @ rest"
    and p: "path_ok p" and j: "junk_ok j" and rest: "LF \<notin> set rest" "CR \<notin> set rest"
  shows "\<exists>h'. do_read n k j cfd efd h = (Inl Fuel, h')"
proof -
  note pd = path_okD[OF p]
  define l where "l = request_line ''GET'' p ''HTTP/1.1''"
  have len: "length l < 1023" "LF \<notin> set l" "CR \<notin> set l"
    using pd by (auto simp: l_def request_line_def)
  define buf where "buf = (l @ [LF]) @ NUL # drop (Suc (length (l @ [LF]))) (j_line j)"
  have "http_line (nat (1024 - 1)) (l @ [CR, LF] @ rest) = (l @ [LF], rest, False)"
    using http_line_terminated(1)[OF len(2,3), of 1023 rest] len by simp
  from get_line_stream[OF st u[folded l_def] _ _ this, of "j_line j"] j
  obtain h1 where h1: "get_line k cfd (j_line j) 1024 h = (Inr (int (length (l @ [LF])), buf), h1)"
    and r1: "drop (taken cfd h1) s = rest"
    by (auto simp: junk_ok_def buf_def)
  from skip_headers_stream[OF st r1, of n] obtain h2 where
    h2: "skip_headers n k cfd h1 = (Inl Fuel, h2)"
    unfolding skip_ref_closed[OF rest] by auto
  have "store_fields (sscanf request_format (c_str buf)) [j_method j, j_path j, j_protocol j] =
      Inr [''GET'' @ NUL # drop (Suc (length ''GET'')) (j_method j), p @ NUL # drop (Suc (length p)) (j_path j),
         ''HTTP/1.1'' @ LF # NUL # drop (Suc (length (''HTTP/1.1'' @ [LF]))) (j_protocol j)]"
    using first_line_fields[OF p j] by (simp add: buf_def l_def)
  then show ?thesis by (simp add: do_read_def io_simps h1 h2)
qed

section \<open>The descriptors the server keeps\<close>

lemma http_inv_quiet [simp]:
  "epoll_inv l e ((CRecv fd n pk, r) # h) = epoll_inv l e h"
  "epoll_inv l e ((CSend fd b, r) # h) = epoll_inv l e h"
  "epoll_inv l e ((CRead fd n, r) # h) = epoll_inv l e h"
  "epoll_inv l e ((CStat f, r) # h) = epoll_inv l e h"
  "epoll_inv l e ((COpen f, r) # h) = epoll_inv l e h"
  "epoll_inv l e ((CEpollWait fd n t, r) # h) = epoll_inv l e h"
  by (simp_all add: epoll_inv_def)

lemma wp_lift: "(\<And>a. x = Inr a \<Longrightarrow> Q a h) \<Longrightarrow> wp (lift x) Q any_stop h"
  by (cases x) (simp_all add: wp_simps)

lemma wp_response_buf: "I h \<Longrightarrow> wp (response_buf no d ty) (\<lambda>_. I) any_stop h"
  by (auto simp: response_buf_def wp_simps intro!: wp_lift)

lemma http_inv_senderror: "epoll_inv l e h \<Longrightarrow> wp (senderror k cfd) (\<lambda>_. epoll_inv l e) any_stop h"
  by (auto simp: senderror_def wp_simps intro!: wp_mono[OF wp_response_buf] wp_lift)

lemma http_inv_sendResponse:
  "epoll_inv l e h \<Longrightarrow> wp (sendResponse k cfd no d ty len) (\<lambda>_. epoll_inv l e) any_stop h"
  by (auto simp: sendResponse_def wp_simps intro!: wp_mono[OF wp_response_buf])

text \<open>While a file is open, its descriptor stays apart from the watched ones.\<close>

lemma http_inv_send_loop:
  "epoll_inv l e h \<Longrightarrow> fd \<notin> watched e h \<Longrightarrow>
   wp (send_loop n k cfd fd) (\<lambda>_ h'. epoll_inv l e h' \<and> fd \<notin> watched e h') any_stop h"
  by (induction n arbitrary: h) (auto simp: wp_simps)

lemma http_inv_close_file:
  "epoll_inv l e h \<Longrightarrow> fd \<notin> watched e h \<Longrightarrow> epoll_inv l e ((CClose fd, r) # h)"
  by (auto simp: epoll_inv_def)

lemma http_inv_sendfile:
  assumes "kernel_fds k" and "epoll_inv l e h"
  shows "wp (sendfile n k cfd f) (\<lambda>_. epoll_inv l e) any_stop h"
  using assms kernel_fdsD(2)[OF assms(1), of h f]
  by (auto simp: sendfile_def wp_simps fresh_fd_def http_inv_close_file
      intro!: http_inv_senderror wp_mono[OF http_inv_send_loop])

lemma http_inv_http_request:
  assumes "kernel_fds k" and "epoll_inv l e h"
  shows "wp (http_request n k j cfd f) (\<lambda>_. epoll_inv l e) any_stop h"
  using assms
  by (auto simp: http_request_def wp_simps
      intro!: http_inv_senderror wp_lift wp_mono[OF http_inv_sendResponse] http_inv_sendfile)

lemma http_inv_closefd:
  assumes "kernel_fds k" and "epoll_inv l e h" and "cfd \<noteq> l"
  shows "wp (closefd k cfd e) (\<lambda>_. epoll_inv l e) any_stop h"
  using assms
  by (auto simp: closefd_def wp_simps epoll_inv_def)

lemma http_inv_do_read:
  assumes "kernel_fds k" and "epoll_inv l e h" and "cfd \<noteq> l"
  shows "wp (do_read n k j cfd e) (\<lambda>_. epoll_inv l e) any_stop h"
proof -
  have body: "wp (if len = 0 then closefd k cfd e
       else bnd (lift (store_fields (sscanf request_format (c_str line))
                   [j_method j, j_path j, j_protocol j])) (\<lambda>bufs.
         if \<not> list_all terminated bufs then halt (Undef NoTerminator)
         else bnd (skip_headers n k cfd) (\<lambda>_.
           case strncaseeq 3 (bufs ! 0) (''GET'' @ [NUL]) of
             None \<Rightarrow> halt (Undef OutOfBounds)
           | Some False \<Rightarrow> pure ()
           | Some True \<Rightarrow>
               if terminated (drop 1 (bufs ! 1))
               then http_request n k j cfd (c_str (drop 1 (bufs ! 1)))
               else halt (Undef NoTerminator)))) (\<lambda>_. epoll_inv l e) any_stop h'"
    if "epoll_inv l e h'" for len :: int and line h'
    using that assms
    by (auto simp: wp_simps intro!: http_inv_closefd wp_lift wp_mono[OF wp_skip_headers[where I = "epoll_inv l e"]]
        http_inv_http_request split: option.split bool.split)
  show ?thesis
    unfolding do_read_def wp_bnd
    by (rule wp_mono[OF wp_get_line[where I = "epoll_inv l e"]]) (use assms body in auto)
qed

lemma http_inv_added:
  assumes "epoll_inv l e h" and "ret r = -1 \<or> fresh_fd h (ret r)" and "ret r \<noteq> -1" and "0 \<le> ret q"
  shows "epoll_inv l e ((CEpollCtl e CtlAdd (ret r) m d, q) # (CSetNonblock (ret r), r2) #
           (CGetFlags (ret r), r1) # (CAccept l, r) # h)"
proof -
  have "0 \<le> ret r" "ret r \<notin> watched e h" using assms by (auto simp: fresh_fd_def)
  moreover have "watched e h = insert l (open_conns h)" "l \<notin> open_conns h"
    using assms(1) by (simp_all add: epoll_inv_def)
  ultimately show ?thesis using assms(4) by (simp add: epoll_inv_def insert_commute)
qed

lemma http_inv_do_accept:
  assumes "kernel_fds k" and "epoll_inv l e h"
  shows "wp (do_accept k l e) (\<lambda>_. epoll_inv l e) any_stop h"
  unfolding do_accept_def wp_simps Let_def
  using assms http_inv_added[OF assms(2) kernel_fdsD(1)[OF assms(1)]] by simp

lemma http_inv_round:
  assumes "kernel_fds k" and "epoll_inv l e h"
  shows "wp (http_round n k j l e u) (\<lambda>_. epoll_inv l e) any_stop h"
  using assms
  by (auto simp: http_round_def wp_simps http_event_def
      intro!: wp_for_io[where I = "\<lambda>_. epoll_inv l e"] http_inv_do_accept http_inv_do_read)

lemma http_inv_epoll_run:
  assumes "kernel_fds k"
  shows "wp (epoll_run rounds n k j port) (\<lambda>_ h. \<exists>lfd efd. epoll_inv lfd efd h) any_stop []"
  using assms
  by (auto simp: epoll_run_def init_listen_fd_def wp_simps Let_def
      intro!: wp_mono[OF wp_times[where I = "\<lambda>_. epoll_inv l e" for l e, OF http_inv_round]])
    (auto simp: epoll_inv_def)

end
