(* ===== verification/Http_Claims.thy ===== *)
theory Http_Claims
  imports Http_Props
begin

text \<open>
  The properties of \<^verbatim>\<open>http/myhttpd.c\<close>, each a few steps over the lemmas of
  \<^verbatim>\<open>Http_Line\<close> and \<^verbatim>\<open>Http_Props\<close>.
\<close>

section \<open>Reading a request\<close>

text \<open>
  C1. On a socket that delivers a byte stream, get_line stores exactly the next line of the
  stream (at most size - 1 bytes, its CR, LF or CR LF stored as one LF) and a terminator,
  returns its length (or -1 when a receive failed last), and leaves the rest of the stream
  unread, although it reads one byte at a time with a one-byte look-ahead.
\<close>
theorem get_line_reads_a_line:
  assumes "stream_at k fd s z" and "drop (taken fd h) s = u"
    and "1 < sz" and "sz = int (length buf)" and "http_line (nat (sz - 1)) u = (l, r, e)"
  shows "\<exists>h'. get_line k fd buf sz h =
      (Inr (if e \<and> z = -1 then -1 else int (length l), l @ NUL # drop (Suc (length l)) buf), h') \<and>
    drop (taken fd h') s = r \<and> length l < length buf"
proof -
  have "nat (sz - 1) < length buf" using assms(3,4) by linarith
  then have "length l < length buf" using http_line_length[OF assms(5)] by simp
  then show ?thesis using get_line_stream[OF assms] by blast
qed

theorem get_line_reads_a_line_witness:
  "\<exists>h'. get_line (stream_kernel 5 (''ab'' @ [CR, LF] @ ''c'') 0) 5 ''xxxxxxxx'' 8 [] =
      (Inr (3, ''ab'' @ [LF, NUL] @ ''xxxx''), h') \<and>
    drop (taken 5 h') (''ab'' @ [CR, LF] @ ''c'') = ''c'' \<and>
    length (''ab'' @ [LF]) < length ''xxxxxxxx''"
proof -
  let ?s = "''ab'' @ [CR, LF] @ ''c''"
  have st: "stream_at (stream_kernel 5 ?s 0) 5 ?s 0" by (rule stream_kernel_at) simp
  have u: "drop (taken 5 []) ?s = ?s" by simp
  have h: "http_line (nat (8 - 1)) ?s = (''ab'' @ [LF], ''c'', False)" by simp
  have l: "(8::int) = int (length ''xxxxxxxx'')" by simp
  from get_line_reads_a_line[OF st u _ l h] show ?thesis by simp
qed

text \<open>
  A request line printed from a method, a path and a version (none empty, none with a
  space in it) is scanned back into the same three fields by the server's sscanf format.
\<close>
theorem request_line_round_trip:
  assumes "m \<noteq> []" "p \<noteq> []" "v \<noteq> []" and "CHR '' '' \<notin> set m" "CHR '' '' \<notin> set p" "CHR '' '' \<notin> set v"
    and "\<not> is_space (hd p)" "\<not> is_space (hd v)"
  shows "sscanf request_format (request_line m p v) = [m, p, v]"
  by (rule sscanf_request_line[OF assms])

theorem request_line_round_trip_witness:
  "sscanf request_format (request_line ''GET'' ''/hello.c'' ''HTTP/1.1'') = [''GET'', ''/hello.c'', ''HTTP/1.1'']"
  by (rule request_line_round_trip) (simp_all add: is_space_def)

text \<open>
  C40. On a non-blocking socket whose peer stays connected the header loop of do_read always
  ends: one round more than there are bytes left is enough.
\<close>
theorem skip_headers_returns:
  assumes "stream_at k fd s (-1)" and "drop (taken fd h) s = u"
  shows "\<exists>h'. skip_headers (Suc (length u)) k fd h = (Inr (), h')"
proof -
  obtain r where "skip_ref (Suc (length u)) (-1) u = Some r"
    using skip_ref_enough[of u] by blast
  then show ?thesis using skip_headers_stream[OF assms, of "Suc (length u)"] by auto
qed

theorem skip_headers_returns_witness:
  "\<exists>h'. skip_headers (Suc (length ''Host: a'')) (stream_kernel 5 ''Host: a'' (-1)) 5 [] = (Inr (), h')"
  by (rule skip_headers_returns[OF stream_kernel_at]) simp_all

text \<open>
  C21. The whole of do_read on a well-formed GET request: it reads the request line and the
  header lines, no byte more, and hands http_request the path without its first character,
  exactly as the client wrote it (so a path such as /../x names the file ../x).
\<close>
theorem do_read_serves_get:
  assumes "stream_at k cfd s z" and "drop (taken cfd h) s = get_request p ws @ body"
    and "path_ok p" and "junk_ok j" and "\<forall>w \<in> set ws. header_line w" and "length ws < n"
  shows "\<exists>h'. do_read n k j cfd efd h = http_request n k j cfd (tl p) h' \<and> drop (taken cfd h') s = body"
  using do_read_get[OF assms, of "\<lambda>_. True"] by blast

definition zero_junk :: junk where
  "zero_junk = \<lparr>j_line = replicate 1024 NUL, j_method = replicate 16 NUL, j_path = replicate 256 NUL,
     j_protocol = replicate 16 NUL, j_name = replicate 256 NUL, j_extend = replicate 10 NUL,
     j_type = replicate 30 NUL\<rparr>"

lemma zero_junk_ok: "junk_ok zero_junk"
  by (simp add: junk_ok_def zero_junk_def)

theorem do_read_serves_get_witness:
  "\<exists>h'. do_read 2 (stream_kernel 5 (get_request ''/../x'' [''Host: a''] @ ''rest'') 0) zero_junk 5 3 [] =
      http_request 2 (stream_kernel 5 (get_request ''/../x'' [''Host: a''] @ ''rest'') 0) zero_junk 5
        (tl ''/../x'') h' \<and>
    drop (taken 5 h') (get_request ''/../x'' [''Host: a''] @ ''rest'') = ''rest''"
  by (rule do_read_serves_get[OF stream_kernel_at])
    (auto simp: path_ok_def is_space_def header_line_def zero_junk_ok)

text \<open>
  C35. A client that sends a request line and then closes its side, with no line end after
  it, keeps do_read in its header loop for good: whatever the number of rounds allowed,
  they are used up. (get_line returns 0 there, which the loop does not test for.)
\<close>
theorem do_read_stuck_on_close:
  assumes "stream_at k cfd s 0"
    and "drop (taken cfd h) s = request_line ''GET'' p ''HTTP/1.1'' @ [CR, LF] @ rest"
    and "path_ok p" and "junk_ok j" and "LF \<notin> set rest" "CR \<notin> set rest"
  shows "\<forall>n. \<exists>h'. do_read n k j cfd efd h = (Inl Fuel, h')"
  using do_read_half_closed[OF assms] by blast

theorem do_read_stuck_on_close_witness:
  "\<forall>n. \<exists>h'. do_read n (stream_kernel 5 (request_line ''GET'' ''/a'' ''HTTP/1.1'' @ [CR, LF] @ []) 0)
     zero_junk 5 3 [] = (Inl Fuel, h')"
  by (rule do_read_stuck_on_close[OF stream_kernel_at])
    (auto simp: path_ok_def is_space_def zero_junk_ok)

section \<open>Answering it\<close>

text \<open>
  What sendResponse puts on the wire: the Content-Type line, a Content-Length of -1 and
  a blank line. The status line it formats first is overwritten, so the response starts
  without one, and the length argument is not used.
\<close>
theorem sendResponse_bytes:
  assumes "NUL \<notin> set ty" and "length ty < 900" and "length disp + length (dec_int no) < 900"
  shows "sendResponse k cfd no disp ty len h = bnd (wr k (CSend cfd (header_bytes ty))) (\<lambda>_. pure ()) h"
  using response_buf_run[OF assms, of h] by (auto simp: sendResponse_def io_simps)

theorem sendResponse_bytes_witness:
  "sendResponse (script []) 5 200 ''OK'' ''image/jpeg'' 10 [] =
    (Inr (), [(CSend 5 (''Content-Type: image/jpeg '' @ [CR, LF] @ ''Content-Length:-1 '' @ [CR, LF, CR, LF]),
       mk_ret (-1))])"
  using sendResponse_bytes[of "''image/jpeg''" "''OK''" 200 "script []" 5 10 "[]"]
  by (simp add: header_bytes_def crlf_def script_def dec_int_def dec_nat.simps io_simps)

text \<open>
  A regular file whose extension is not jpg is never served: copying the type
  text/plain; charset=iso-8859-1 and its terminator into the 30 bytes of the type array
  writes past its end, before anything is sent.
\<close>
theorem http_request_text_overflows:
  assumes "ret (k h (CStat (b @ CHR ''.'' # x))) \<noteq> -1" and "regular (k h (CStat (b @ CHR ''.'' # x)))"
    and "junk_ok j" and "file_name_ok b x" and "\<not> is_jpg x"
  shows "http_request n k j cfd (b @ CHR ''.'' # x) h =
    (Inl (Undef OutOfBounds), (CStat (b @ CHR ''.'' # x), k h (CStat (b @ CHR ''.'' # x))) # h)"
  using assms getfileType_scan[OF assms(3,4)] by (simp add: http_request_def io_simps)

theorem http_request_text_overflows_witness:
  "http_request 9 (\<lambda>_ _. mk_ret 0\<lparr>regular := True\<rparr>) zero_junk 5 (''index'' @ CHR ''.'' # ''html'') [] =
    (Inl (Undef OutOfBounds), [(CStat (''index'' @ CHR ''.'' # ''html''), mk_ret 0\<lparr>regular := True\<rparr>)])"
  by (rule http_request_text_overflows)
    (simp_all add: zero_junk_ok file_name_ok_def is_jpg_def is_space_def numeral_3_eq_3 to_lower_def)

text \<open>
  As long as the socket's buffer has room for it, sendfile sends the contents of the file, in order and
  whole, within as many rounds as the file has bytes (and one more).
\<close>
theorem sendfile_sends_the_file:
  assumes "file_system k site" and "site f = Regular s" and "send_room k cfd B"
    and "length s < n" and "length (sent_on cfd h) + length s \<le> B"
  shows "\<exists>h'. sendfile n k cfd f h = (Inr (), h') \<and> sent_on cfd h' = sent_on cfd h @ s"
proof -
  let ?fd = "ret (k h (COpen f))"
  have "opened ?fd ((COpen f, k h (COpen f)) # h) = Some (f, 0)" by simp
  from send_loop_file[OF assms(1-3) this, of n] assms(4,5) file_systemD(3)[OF assms(1,2), of h] show ?thesis
    by (auto simp: sendfile_def io_simps)
qed

text \<open>A kernel with a file system that reads three bytes at a time.\<close>

definition site_kernel :: "site \<Rightarrow> kernel" where
  "site_kernel site h c =
     (case c of
        CStat f \<Rightarrow> (case site f of Missing \<Rightarrow> mk_ret (-1) | Special \<Rightarrow> mk_ret 0 | Regular s \<Rightarrow> mk_ret 0\<lparr>regular := True\<rparr>)
      | COpen f \<Rightarrow> mk_ret 9
      | CRead fd n \<Rightarrow>
          (case opened fd h of
             Some (f, p) \<Rightarrow>
               (case site f of
                  Regular s \<Rightarrow> (let u = drop p s; m = min (min 3 n) (length u) in mk_ret (int m)\<lparr>dat := take m u\<rparr>)
                | _ \<Rightarrow> mk_ret (-1))
           | None \<Rightarrow> mk_ret (-1))
      | CSend fd b \<Rightarrow> mk_ret (int (length b))
      | _ \<Rightarrow> mk_ret 0)"

lemma site_kernel_room: "send_room (site_kernel site) fd B"
  by (simp add: send_room_def site_kernel_def)

lemma site_kernel_files: "file_system (site_kernel site) site"
  by (auto simp: file_system_def site_kernel_def Let_def mk_ret_def split: file_state.splits)

theorem sendfile_sends_the_file_witness:
  "\<exists>h'. sendfile 12 (site_kernel (\<lambda>_. Regular ''hello, net'')) 5 ''a'' [] = (Inr (), h') \<and>
    sent_on 5 h' = sent_on 5 [] @ ''hello, net''"
  by (rule sendfile_sends_the_file[OF site_kernel_files _ site_kernel_room[of _ _ 10]]) simp_all

text \<open>
  In every run of sendfile's loop each chunk read from the file is handed to send exactly
  once and in order, also when send answers that it would block: a chunk the socket did not
  take is not sent again.
\<close>
theorem send_loop_sends_each_chunk_once:
  "\<exists>cs. chunks fd (snd (send_loop n k cfd fd h)) = chunks fd h @ cs \<and>
        payloads cfd (snd (send_loop n k cfd fd h)) = payloads cfd h @ cs"
  using send_loop_once by blast

section \<open>The event loop\<close>

text \<open>
  C7. After every number of rounds of the event loop the descriptors the epoll instance
  watches are exactly the listening socket and the connections that have been accepted and
  not closed: no connection is forgotten, and none is watched after it was closed.
\<close>
theorem http_watches_open_connections:
  assumes "kernel_fds k" and "epoll_run rounds n k j port [] = (Inr u, h)"
  shows "\<exists>lfd efd. watched efd h = insert lfd (open_conns h) \<and> lfd \<notin> open_conns h"
  using wp_InrD[OF http_inv_epoll_run[OF assms(1)] assms(2)] by (auto simp: epoll_inv_def)

text \<open>Round one accepts the connection 7, round two sees it closed by its peer.\<close>

definition http_demo :: kernel where
  "http_demo = keep_fds (script
     [mk_ret 3, mk_ret 4, mk_ret 0, mk_ret 0, mk_ret 0, mk_ret 0,
      mk_ret 1\<lparr>evs := [(4, 1)]\<rparr>, mk_ret 7, mk_ret 2, mk_ret 0, mk_ret 0,
      mk_ret 1\<lparr>evs := [(7, 1)]\<rparr>, mk_ret 0, mk_ret 0, mk_ret 0])"

lemmas http_run_simps = epoll_run_def init_listen_fd_def http_round_def http_event_def do_accept_def
  do_read_def closefd_def get_line_def Let_def io_simps keep_fds_def script_def fresh_fd_def zero_junk_def

theorem http_watches_open_connections_witness:
  "\<exists>h. epoll_run (Suc (Suc 0)) 3 http_demo zero_junk 9000 [] = (Inr (), h) \<and>
    (\<exists>lfd efd. watched efd h = insert lfd (open_conns h) \<and> lfd \<notin> open_conns h)"
proof -
  obtain h where h: "epoll_run (Suc (Suc 0)) 3 http_demo zero_junk 9000 [] = (Inr (), h)"
    by (simp add: http_run_simps http_demo_def)
  have "kernel_fds http_demo" unfolding http_demo_def by (rule kernel_fds_keep)
  from http_watches_open_connections[OF this h] h show ?thesis by blast
qed

end
