(* ===== verification/Http_Answers.thy ===== *)
theory Http_Answers
  imports Http_Claims
begin

text \<open>
  The server of \<^verbatim>\<open>http/myhttpd.c\<close> from the request to the last byte of the answer: a
  specification of what a GET is answered with, and the theorem that \<open>do_read\<close> gives that answer.
\<close>

section \<open>The specification\<close>

text \<open>
  The bytes a client gets: the page for a missing file, nothing for a directory, a header and the contents
  for a picture. The server has no defined answer for a regular file of another type.
\<close>

definition answer :: "bytes \<Rightarrow> file_state \<Rightarrow> bytes option" where
  "answer ext st =
     (case st of
        Missing \<Rightarrow> Some (header_bytes ''text/html'' @ html_404)
      | Special \<Rightarrow> Some []
      | Regular s \<Rightarrow> if is_jpg ext then Some (header_bytes ''image/jpeg'' @ s) else None)"

text \<open>A finished call that has sent the answer, or one stopped by the overflow before it sent anything.\<close>

definition answered :: "int \<Rightarrow> bytes option \<Rightarrow> history \<Rightarrow> (stop + unit) \<times> history \<Rightarrow> bool" where
  "answered cfd out h r \<longleftrightarrow>
     (case out of
        None \<Rightarrow> fst r = Inl (Undef OutOfBounds) \<and> sent_on cfd (snd r) = sent_on cfd h
      | Some b \<Rightarrow> fst r = Inr () \<and> sent_on cfd (snd r) = sent_on cfd h @ b)"

section \<open>The parts of an answer\<close>

lemma html_404_fits: "NUL \<notin> set html_404" "length (header_bytes ''text/html'') + length html_404 < 1024"
  by (simp_all add: html_404_def header_bytes_def)

lemma senderror_answers:
  assumes "send_room k cfd B" and "length (sent_on cfd h) + length (header_bytes ''text/html'' @ html_404) \<le> B"
  shows "answered cfd (Some (header_bytes ''text/html'' @ html_404)) h (senderror k cfd h)"
proof -
  obtain b where b: "response_buf 200 ''OK'' ''text/html'' h = (Inr b, h)" "c_str b = header_bytes ''text/html''"
    "length b = 1024"
    using response_buf_run[of "''text/html''" "''OK''" 200 h] by (auto simp: dec_int_def dec_nat.simps)
  obtain b' where b': "store_at (length (c_str b)) html_404 b = Inr b'"
    using store_at_fits[of "length (c_str b)" html_404 b] b html_404_fits(2) by auto
  have "c_str b' = header_bytes ''text/html'' @ html_404"
    using store_at_end[OF b' html_404_fits(1)] b(2) by simp
  moreover have "ret (k h (CSend cfd (header_bytes ''text/html'' @ html_404))) =
      int (length (header_bytes ''text/html'' @ html_404))"
    using assms unfolding send_room_def by blast
  ultimately show ?thesis using b b' by (simp add: senderror_def io_simps answered_def)
qed

lemma http_request_answers:
  assumes j: "junk_ok j" and ok: "file_name_ok b x" and fs: "file_system k site"
    and sent: "send_room k cfd B" and fits: "\<And>a. answer x (site (b @ CHR ''.'' # x)) = Some a \<Longrightarrow> length (sent_on cfd h) + length a \<le> B"
    and n: "\<And>s. site (b @ CHR ''.'' # x) = Regular s \<Longrightarrow> length s < n"
  shows "answered cfd (answer x (site (b @ CHR ''.'' # x))) h (http_request n k j cfd (b @ CHR ''.'' # x) h)"
proof (cases "site (b @ CHR ''.'' # x)")
  case Missing
  let ?h = "(CStat (b @ CHR ''.'' # x), k h (CStat (b @ CHR ''.'' # x))) # h"
  have "http_request n k j cfd (b @ CHR ''.'' # x) h = senderror k cfd ?h"
    using file_systemD(1)[OF fs Missing] by (simp add: http_request_def io_simps)
  with senderror_answers[OF sent, of ?h] fits Missing show ?thesis by (simp add: answered_def answer_def)
next
  case Special
  then show ?thesis
    using file_systemD(2)[OF fs Special] by (simp add: http_request_def io_simps answered_def answer_def)
next
  case (Regular s)
  let ?f = "b @ CHR ''.'' # x"
  let ?h = "(CStat ?f, k h (CStat ?f)) # h"
  have reg: "ret (k h (CStat ?f)) \<noteq> -1" "regular (k h (CStat ?f))" using file_systemD(3)[OF fs Regular] by simp_all
  show ?thesis
  proof (cases "is_jpg x")
    case False
    then show ?thesis
      using reg Regular getfileType_scan[OF j ok] by (simp add: http_request_def io_simps answered_def answer_def)
  next
    case True
    let ?hd = "header_bytes ''image/jpeg''"
    let ?h2 = "(CSend cfd ?hd, k ?h (CSend cfd ?hd)) # ?h"
    have ty: "c_str (''image/jpeg'' @ NUL # t) = ''image/jpeg''" for t
      by (rule c_str_terminated) simp
    have room: "length (sent_on cfd h) + (length ?hd + length s) \<le> B" using fits Regular True by (simp add: answer_def)
    then have took: "ret (k ?h (CSend cfd ?hd)) = int (length ?hd)" using sent unfolding send_room_def by simp
    have "sendResponse k cfd 200 ''OK'' ''image/jpeg'' len ?h = (Inr (), ?h2)" for len
      using sendResponse_bytes[of "''image/jpeg''" "''OK''" 200 k cfd len ?h] took by (simp add: dec_int_def dec_nat.simps io_simps)
    then have run: "http_request n k j cfd ?f h = sendfile n k cfd ?f ?h2"
      using reg True getfileType_scan[OF j ok] ty by (simp add: http_request_def io_simps)
    from sendfile_sends_the_file[OF fs Regular sent n[OF Regular], of ?h2] run True Regular took room
    show ?thesis by (auto simp: answered_def answer_def)
  qed
qed

section \<open>The whole request\<close>

text \<open>
  C2. As long as the socket's buffer has room for the answer (the socket is non-blocking, and of a send that is taken
  in part or not at all the rest is lost), a well-formed GET request for a file with an extension is answered as specified,
  from the first byte read to the last byte taken by send: a missing file with the 404 page, a picture with its header and its whole
  contents, in order and once; for a regular file of another type the call stops in the overflow of the
  type array with nothing sent. In every case do_read does not run out of rounds.
\<close>
theorem get_request_answered:
  assumes "stream_at k cfd s z" and "drop (taken cfd h) s = get_request (c # b @ CHR ''.'' # x) ws @ body"
    and "path_ok (c # b @ CHR ''.'' # x)" and "junk_ok j" and "\<forall>w \<in> set ws. header_line w" and "length ws < n"
    and "file_name_ok b x" and "file_system k site"
    and "send_room k cfd B" and "\<And>a. answer x (site (b @ CHR ''.'' # x)) = Some a \<Longrightarrow> length (sent_on cfd h) + length a \<le> B"
    and "\<And>t. site (b @ CHR ''.'' # x) = Regular t \<Longrightarrow> length t < n"
  shows "answered cfd (answer x (site (b @ CHR ''.'' # x))) h (do_read n k j cfd efd h)"
proof -
  let ?I = "\<lambda>h'. sent_on cfd h' = sent_on cfd h"
  obtain h' where h': "do_read n k j cfd efd h = http_request n k j cfd (b @ CHR ''.'' # x) h'" "?I h'"
    using do_read_get[OF assms(1-6), of ?I efd] by auto
  from http_request_answers[OF assms(4,7-9), of h'] assms(10,11) h' show ?thesis
    by (auto simp: answered_def split: option.splits)
qed

text \<open>A kernel with one stream and a site, for concrete runs.\<close>

definition web_kernel :: "int \<Rightarrow> bytes \<Rightarrow> site \<Rightarrow> kernel" where
  "web_kernel cfd s site h c = (case c of CRecv f n p \<Rightarrow> stream_kernel cfd s 0 h c | _ \<Rightarrow> site_kernel site h c)"

lemma web_kernel_stream: "stream_at (web_kernel cfd s site) cfd s 0"
  using stream_kernel_at[of 0 cfd s] by (simp add: stream_at_def web_kernel_def)

lemma file_system_same:
  assumes "file_system k site" and "\<And>h f. k' h (CStat f) = k h (CStat f)" "\<And>h f. k' h (COpen f) = k h (COpen f)"
    and "\<And>h fd n. k' h (CRead fd n) = k h (CRead fd n)"
  shows "file_system k' site"
  using assms(1) unfolding file_system_def assms(2-4) .

lemma web_kernel_files: "file_system (web_kernel cfd s site) site"
  by (rule file_system_same[OF site_kernel_files]) (simp_all add: web_kernel_def)

lemma web_kernel_room: "send_room (web_kernel cfd s site) fd B"
  by (simp add: send_room_def web_kernel_def site_kernel_def)

theorem get_request_answered_witness:
  "answered 5 (Some (''Content-Type: image/jpeg '' @ [CR, LF] @ ''Content-Length:-1 '' @ [CR, LF, CR, LF] @ ''picture'')) []
     (do_read 9 (web_kernel 5 (get_request ''/cat.jpg'' [''Host: a''] @ ''rest'') (\<lambda>_. Regular ''picture'')) zero_junk 5 3 [])"
proof -
  let ?k = "web_kernel 5 (get_request ''/cat.jpg'' [''Host: a''] @ ''rest'') (\<lambda>_. Regular ''picture'')"
  have "answered 5 (answer ''jpg'' (Regular ''picture'')) [] (do_read 9 ?k zero_junk 5 3 [])"
    by (rule get_request_answered[OF web_kernel_stream _ _ _ _ _ _ web_kernel_files web_kernel_room[where B = 1000], where c = "CHR ''/''" and b = "''cat''"
          and ws = "[''Host: a'']" and body = "''rest''"])
      (auto simp: path_ok_def is_space_def header_line_def zero_junk_ok file_name_ok_def answer_def header_bytes_def crlf_def split: if_splits)
  then show ?thesis
    by (simp add: answer_def is_jpg_def header_bytes_def crlf_def numeral_3_eq_3)
qed

end
