(* ===== verification/Http_Sessions.thy ===== *)
theory Http_Sessions
  imports Http_Answers
begin

text \<open>
  The server of \<^verbatim>\<open>http/myhttpd.c\<close> and all its clients: the event loop, which takes the connections
  in the order the kernel reports them, gives each client the answers to its own requests.
\<close>

section \<open>Clients\<close>

text \<open>A request for a file with an extension, and what the specification answers.\<close>

record request =
  r_lead :: char
  r_stem :: bytes
  r_ext :: bytes
  r_headers :: "bytes list"

definition r_file :: "request \<Rightarrow> bytes" where
  "r_file r = r_stem r @ CHR ''.'' # r_ext r"

definition request_text :: "request \<Rightarrow> bytes" where
  "request_text r = get_request (r_lead r # r_file r) (r_headers r)"

definition reply :: "site \<Rightarrow> request \<Rightarrow> bytes" where
  "reply site r = (case answer (r_ext r) (site (r_file r)) of Some b \<Rightarrow> b | None \<Rightarrow> [])"

text \<open>
  A request the server can answer, within \<open>n\<close> rounds of its loops: well formed, and not for a regular
  file of a type other than jpg.
\<close>

definition servable :: "site \<Rightarrow> nat \<Rightarrow> request \<Rightarrow> bool" where
  "servable site n r \<longleftrightarrow>
     path_ok (r_lead r # r_file r) \<and> file_name_ok (r_stem r) (r_ext r) \<and>
     (\<forall>w \<in> set (r_headers r). header_line w) \<and> length (r_headers r) < n \<and>
     (case site (r_file r) of Regular t \<Rightarrow> is_jpg (r_ext r) \<and> length t < n | _ \<Rightarrow> True)"

text \<open>
  Every connection delivers the requests of its client and then the end of the stream, and its buffer has room for the
  answers; a number stands for one client only; the file system holds the site; and the listening socket is known.
\<close>

definition clients :: "kernel \<Rightarrow> site \<Rightarrow> int \<Rightarrow> (int \<Rightarrow> request list) \<Rightarrow> bool" where
  "clients k site lfd reqs \<longleftrightarrow>
     file_system k site \<and>
     (\<forall>c. c \<noteq> lfd \<longrightarrow> send_room k c (length (concat (map (reply site) (reqs c))))) \<and>
     (\<forall>c. c \<noteq> lfd \<longrightarrow> stream_at k c (concat (map request_text (reqs c))) 0) \<and>
     (\<forall>h. ret (k h (CSocket AF_INET SOCK_STREAM 0)) = lfd)"

lemma clientsD:
  assumes "clients k site lfd reqs"
  shows "file_system k site" "c \<noteq> lfd \<Longrightarrow> send_room k c (length (concat (map (reply site) (reqs c))))" "ret (k h (CSocket AF_INET SOCK_STREAM 0)) = lfd"
    "c \<noteq> lfd \<Longrightarrow> stream_at k c (concat (map request_text (reqs c))) 0"
  using assms by (auto simp: clients_def)

text \<open>How often the kernel has reported input on a connection.\<close>

definition hits :: "int \<Rightarrow> (int \<times> 32 word) list \<Rightarrow> nat" where
  "hits c es = length (filter (\<lambda>(d, m). d = c \<and> m AND EPOLLIN \<noteq> 0) es)"

fun reported :: "int \<Rightarrow> history \<Rightarrow> nat" where
  "reported c [] = 0"
| "reported c ((x, r) # h) =
     reported c h + (case x of CEpollWait e n t \<Rightarrow> hits c (take (nat (ret r)) (evs r)) | _ \<Rightarrow> 0)"

text \<open>The calls whose failure ends the server, and a history at whose end one of them has failed.\<close>

fun must_succeed :: "call \<Rightarrow> bool" where
  "must_succeed (CEpollCreate n) = True"
| "must_succeed (CSocket d t p) = True"
| "must_succeed (CBind fd a) = True"
| "must_succeed (CListen fd n) = True"
| "must_succeed (CEpollCtl e x fd m y) = True"
| "must_succeed (CEpollWait e n t) = True"
| "must_succeed (CAccept fd) = True"
| "must_succeed _ = False"

definition failed :: "kernel \<Rightarrow> history \<Rightarrow> bool" where
  "failed k h \<longleftrightarrow> (\<exists>c h'. h = (c, k h' c) # h' \<and> must_succeed c \<and> ret (k h' c) = -1)"

lemma failed_Cons [simp]: "failed k ((c, r) # h) \<longleftrightarrow> r = k h c \<and> must_succeed c \<and> ret r = -1"
  by (auto simp: failed_def)

section \<open>What a connection has got\<close>

text \<open>The first \<open>i\<close> requests of a connection have been read and answered, and nothing else.\<close>

definition served :: "site \<Rightarrow> (int \<Rightarrow> request list) \<Rightarrow> int \<Rightarrow> nat \<Rightarrow> history \<Rightarrow> bool" where
  "served site reqs c i h \<longleftrightarrow>
     drop (taken c h) (concat (map request_text (reqs c))) = concat (map request_text (drop i (reqs c))) \<and>
     sent_on c h = concat (map (reply site) (take i (reqs c)))"

text \<open>Two histories that differ in nothing the connection sees.\<close>

definition same_for :: "int \<Rightarrow> history \<Rightarrow> history \<Rightarrow> bool" where
  "same_for c h h' \<longleftrightarrow> taken c h' = taken c h \<and> sent_on c h' = sent_on c h"

lemma served_same: "same_for c h h' \<Longrightarrow> served site reqs c i h' = served site reqs c i h"
  by (simp add: served_def same_for_def)

text \<open>What serving one connection leaves alone: the others, and the reports.\<close>

definition only_for :: "int \<Rightarrow> history \<Rightarrow> history \<Rightarrow> bool" where
  "only_for c h h' \<longleftrightarrow> (\<forall>d. d \<noteq> c \<longrightarrow> same_for d h h') \<and> (\<forall>d. reported d h' = reported d h)"

lemma taken_other [simp]:
  "taken d ((CSend c b, r) # h) = taken d h" "taken d ((CRead c n, r) # h) = taken d h"
  "taken d ((CStat f, r) # h) = taken d h" "taken d ((COpen f, r) # h) = taken d h"
  "taken d ((CClose c, r) # h) = taken d h" "taken d ((CEpollCtl e x c m y, r) # h) = taken d h"
  "taken d ((CAccept c, r) # h) = taken d h" "taken d ((CGetFlags c, r) # h) = taken d h"
  "taken d ((CSetNonblock c, r) # h) = taken d h" "taken d ((CEpollWait e n t, r) # h) = taken d h"
  by (simp_all add: taken_def)

lemma only_for_refl [simp]: "only_for c h h"
  by (simp add: only_for_def same_for_def)

lemma only_for_steps:
  assumes "only_for c h h'"
  shows "only_for c h ((CRecv c n p, r) # h')" "only_for c h ((CSend c b, r) # h')" "only_for c h ((CRead d n, r) # h')"
    "only_for c h ((CStat f, r) # h')" "only_for c h ((COpen f, r) # h')" "only_for c h ((CClose d, r) # h')"
    "only_for c h ((CEpollCtl e x d m y, r) # h')"
  using assms by (auto simp: only_for_def same_for_def)

text \<open>What the parts of an answer keep, for anything kept by the calls they make.\<close>

definition answer_keeps :: "int \<Rightarrow> (history \<Rightarrow> bool) \<Rightarrow> bool" where
  "answer_keeps c I \<longleftrightarrow>
     (\<forall>h r b d n f. I h \<longrightarrow> I ((CSend c b, r) # h) \<and> I ((CRead d n, r) # h) \<and> I ((CStat f, r) # h) \<and>
        I ((COpen f, r) # h) \<and> I ((CClose d, r) # h))"

lemma answer_keepsD:
  assumes "answer_keeps c I" and "I h"
  shows "I ((CSend c b, r) # h)" "I ((CRead d n, r) # h)" "I ((CStat f, r) # h)" "I ((COpen f, r) # h)"
    "I ((CClose d, r) # h)"
  using assms by (auto simp: answer_keeps_def)

lemma wp_senderror: "answer_keeps c I \<Longrightarrow> I h \<Longrightarrow> wp (senderror k c) (\<lambda>_. I) any_stop h"
  by (auto simp: senderror_def wp_simps answer_keepsD intro!: wp_mono[OF wp_response_buf[of I]] wp_lift)

lemma wp_send_loop: "answer_keeps c I \<Longrightarrow> I h \<Longrightarrow> wp (send_loop n k c fd) (\<lambda>_. I) any_stop h"
  by (induction n arbitrary: h) (auto simp: wp_simps answer_keepsD)

lemma wp_sendfile: "answer_keeps c I \<Longrightarrow> I h \<Longrightarrow> wp (sendfile n k c f) (\<lambda>_. I) any_stop h"
  by (auto simp: sendfile_def wp_simps answer_keepsD intro!: wp_senderror wp_mono[OF wp_send_loop[of c I]])

lemma wp_http_request: "answer_keeps c I \<Longrightarrow> I h \<Longrightarrow> wp (http_request n k j c f) (\<lambda>_. I) any_stop h"
  by (auto simp: http_request_def sendResponse_def wp_simps answer_keepsD
      intro!: wp_senderror wp_lift wp_sendfile wp_mono[OF wp_response_buf[of I]])


section \<open>One report\<close>

lemma request_at:
  assumes "i < length rs"
  shows "drop i rs = rs ! i # drop (Suc i) rs" "take (Suc i) rs = take i rs @ [rs ! i]"
  using assms by (simp_all add: Cons_nth_drop_Suc take_Suc_conv_app_nth)

text \<open>A report while a request is left: it is read and answered.\<close>

lemma do_read_next:
  assumes cl: "clients k site lfd reqs" "c \<noteq> lfd" and j: "junk_ok j" and ok: "\<forall>r \<in> set (reqs c). servable site n r"
    and sv: "served site reqs c i h" and i: "i < length (reqs c)"
  shows "\<exists>h'. do_read n k j c efd h = (Inr (), h') \<and> served site reqs c (Suc i) h' \<and> only_for c h h'"
proof -
  define r where "r = reqs c ! i"
  let ?s = "concat (map request_text (reqs c))" and ?rest = "concat (map request_text (drop (Suc i) (reqs c)))"
  have "servable site n r" using ok i by (simp add: r_def)
  then have r: "path_ok (r_lead r # r_file r)" "file_name_ok (r_stem r) (r_ext r)" "\<forall>w \<in> set (r_headers r). header_line w"
    "length (r_headers r) < n" "\<And>t. site (r_file r) = Regular t \<Longrightarrow> is_jpg (r_ext r) \<and> length t < n"
    by (auto simp: servable_def)
  let ?I = "\<lambda>h'. sent_on c h' = sent_on c h \<and> only_for c h h'"
  have "drop (taken c h) ?s = get_request (r_lead r # r_file r) (r_headers r) @ ?rest"
    using sv request_at(1)[OF i] by (simp add: served_def request_text_def r_def)
  from do_read_get[OF clientsD(4)[OF cl] this r(1) j r(3,4), of ?I efd] obtain h1 where
    h1: "do_read n k j c efd h = http_request n k j c (r_file r) h1" "drop (taken c h1) ?s = ?rest" "?I h1"
    by (auto intro: only_for_steps)
  have some: "answer (r_ext r) (site (r_file r)) = Some (reply site r)"
    using r(5) by (auto simp: answer_def reply_def split: file_state.split)
  have "concat (map (reply site) (reqs c)) = concat (map (reply site) (take (Suc i) (reqs c) @ drop (Suc i) (reqs c)))" by simp
  then have "length (sent_on c h1) + length (reply site r) \<le> length (concat (map (reply site) (reqs c)))"
    using sv h1(3) request_at(2)[OF i] unfolding map_append concat_append by (simp add: served_def r_def)
  then have "answered c (answer (r_ext r) (site (r_file r))) h1 (http_request n k j c (r_file r) h1)"
    using http_request_answers[OF j r(2) clientsD(1)[OF cl(1)] clientsD(2)[OF cl], of h1 n] r(5) some
    by (simp add: r_file_def)
  then obtain h2 where h2: "http_request n k j c (r_file r) h1 = (Inr (), h2)"
    "sent_on c h2 = sent_on c h1 @ reply site r"
    by (cases "http_request n k j c (r_file r) h1") (auto simp: some answered_def)
  have "answer_keeps c (\<lambda>h'. taken c h' = taken c h1 \<and> only_for c h h')"
    by (auto simp: answer_keeps_def only_for_steps)
  from wp_InrD[OF wp_http_request[OF this] h2(1)] h1(3) have "taken c h2 = taken c h1" "only_for c h h2" by auto
  then show ?thesis
    using h1 h2 sv request_at(2)[OF i] by (auto simp: served_def r_def)
qed

text \<open>A report at the end of the stream: the connection is closed.\<close>

lemma wp_do_read_end:
  assumes cl: "clients k site lfd reqs" "c \<noteq> lfd" and j: "junk_ok j" and sv: "served site reqs c (length (reqs c)) h"
  shows "wp (do_read n k j c efd) (\<lambda>_ h'. served site reqs c (length (reqs c)) h' \<and> only_for c h h')
    (\<lambda>e h'. e = Exit 1 \<and> failed k h' \<and> served site reqs c (length (reqs c)) h' \<and> only_for c h h') h"
proof -
  let ?s = "concat (map request_text (reqs c))"
  have u: "drop (taken c h) ?s = []" using sv by (simp add: served_def)
  have "http_line (nat (1024 - 1)) [] = ([], [], True)" by simp
  from get_line_stream[OF clientsD(4)[OF cl] u _ _ this, of "j_line j"] j obtain h1 b where
    h1: "get_line k c (j_line j) 1024 h = (Inr (0, b), h1)" "drop (taken c h1) ?s = []"
    by (auto simp: junk_ok_def)
  let ?I = "\<lambda>h'. sent_on c h' = sent_on c h \<and> only_for c h h'"
  have "?I h1" by (rule wp_InrD[OF wp_get_line[of ?I] h1(1)]) (auto intro: only_for_steps)
  moreover have "served site reqs c (length (reqs c)) h1"
    using sv h1(2) \<open>?I h1\<close> by (simp add: served_def)
  ultimately have "wp (closefd k c efd) (\<lambda>_ h'. served site reqs c (length (reqs c)) h' \<and> only_for c h h')
    (\<lambda>e h'. e = Exit 1 \<and> failed k h' \<and> served site reqs c (length (reqs c)) h' \<and> only_for c h h') h1"
    by (auto simp: closefd_def wp_simps served_def only_for_steps)
  then show ?thesis using h1(1) by (simp add: do_read_def wp_def io_simps)
qed

lemma wp_do_read_client:
  assumes "clients k site lfd reqs" "c \<noteq> lfd" "junk_ok j" "\<forall>r \<in> set (reqs c). servable site n r"
    and "served site reqs c (min m (length (reqs c))) h"
  shows "wp (do_read n k j c efd) (\<lambda>_ h'. served site reqs c (min (Suc m) (length (reqs c))) h' \<and> only_for c h h')
    (\<lambda>e h'. e = Exit 1 \<and> failed k h' \<and> served site reqs c (min (Suc m) (length (reqs c))) h' \<and> only_for c h h') h"
proof (cases "m < length (reqs c)")
  case True
  then show ?thesis using do_read_next[OF assms(1-4), of m h efd] assms(5) by (auto simp: wp_def)
next
  case False
  then have "min m (length (reqs c)) = length (reqs c)" "min (Suc m) (length (reqs c)) = length (reqs c)" by auto
  then show ?thesis using wp_do_read_end[OF assms(1-3), of h n efd] assms(5) by simp
qed

section \<open>The event loop\<close>

text \<open>
  Between two reports: every connection has got as many answers as it has had reports handled, up to its number of
  requests; \<open>es\<close> are the reports of the round that are left.
\<close>

definition loop_inv :: "site \<Rightarrow> int \<Rightarrow> (int \<Rightarrow> request list) \<Rightarrow> (int \<times> 32 word) list \<Rightarrow> history \<Rightarrow> bool" where
  "loop_inv site lfd reqs es h \<longleftrightarrow>
     (\<forall>c. c \<noteq> lfd \<longrightarrow> hits c es \<le> reported c h \<and>
        served site reqs c (min (reported c h - hits c es) (length (reqs c))) h)"

definition stop_inv :: "kernel \<Rightarrow> site \<Rightarrow> int \<Rightarrow> (int \<Rightarrow> request list) \<Rightarrow> stop \<Rightarrow> history \<Rightarrow> bool" where
  "stop_inv k site lfd reqs e h \<longleftrightarrow>
     e = Exit 1 \<and> failed k h \<and> (\<forall>c. c \<noteq> lfd \<longrightarrow> (\<exists>i \<le> min (reported c h) (length (reqs c)). served site reqs c i h))"

lemma hits_Cons: "hits c ((d, m) # es) = (if d = c \<and> m AND EPOLLIN \<noteq> 0 then Suc (hits c es) else hits c es)"
  and hits_Nil [simp]: "hits c [] = 0"
  by (simp_all add: hits_def)

lemma stop_inv_loop: "loop_inv site lfd reqs es h \<Longrightarrow> failed k h \<Longrightarrow> stop_inv k site lfd reqs (Exit 1) h"
  unfolding loop_inv_def stop_inv_def by (meson diff_le_self min.mono order_refl)

text \<open>Calls that no connection notices.\<close>

lemma loop_inv_other [simp]:
  "loop_inv site lfd reqs es ((CAccept l, r) # h) = loop_inv site lfd reqs es h"
  "loop_inv site lfd reqs es ((CGetFlags l, r) # h) = loop_inv site lfd reqs es h"
  "loop_inv site lfd reqs es ((CSetNonblock l, r) # h) = loop_inv site lfd reqs es h"
  "loop_inv site lfd reqs es ((CEpollCtl e x d m y, r) # h) = loop_inv site lfd reqs es h"
  "loop_inv site lfd reqs es ((CEpollCreate n, r) # h) = loop_inv site lfd reqs es h"
  "loop_inv site lfd reqs es ((CSocket a b l, r) # h) = loop_inv site lfd reqs es h"
  "loop_inv site lfd reqs es ((CSetReuse l, r) # h) = loop_inv site lfd reqs es h"
  "loop_inv site lfd reqs es ((CBind l a, r) # h) = loop_inv site lfd reqs es h"
  "loop_inv site lfd reqs es ((CListen l a, r) # h) = loop_inv site lfd reqs es h"
  "loop_inv site lfd reqs [] []"
  by (simp_all add: loop_inv_def served_def taken_def)

lemma wp_do_accept_keeps:
  assumes "loop_inv site lfd reqs es h"
  shows "wp (do_accept k lfd efd) (\<lambda>_. loop_inv site lfd reqs es) (stop_inv k site lfd reqs) h"
  using assms by (auto simp: do_accept_def wp_simps Let_def intro!: stop_inv_loop[of site lfd reqs es])

text \<open>Serving one connection, seen by all of them.\<close>

lemma loop_inv_served:
  assumes "loop_inv site lfd reqs ((c, m) # es) h" and "m AND EPOLLIN \<noteq> 0" and "only_for c h h'"
    and "served site reqs c (min (Suc (reported c h - hits c ((c, m) # es))) (length (reqs c))) h'" and "c \<noteq> lfd"
  shows "loop_inv site lfd reqs es h'"
  unfolding loop_inv_def
proof (intro allI impI)
  fix d
  assume d: "d \<noteq> lfd"
  then have inv: "hits d ((c, m) # es) \<le> reported d h"
    "served site reqs d (min (reported d h - hits d ((c, m) # es)) (length (reqs d))) h"
    using assms(1) by (auto simp: loop_inv_def)
  have rep: "reported d h' = reported d h" using assms(3) by (simp add: only_for_def)
  show "hits d es \<le> reported d h' \<and> served site reqs d (min (reported d h' - hits d es) (length (reqs d))) h'"
  proof (cases "d = c")
    case True
    then have "Suc (reported c h - hits c ((c, m) # es)) = reported c h - hits c es"
      using inv(1) assms(2) by (simp add: hits_Cons)
    with True inv(1) rep assms(2,4) show ?thesis by (simp add: hits_Cons)
  next
    case False
    then have "same_for d h h'" using assms(3) by (simp add: only_for_def)
    with False inv rep show ?thesis by (simp add: hits_Cons served_same)
  qed
qed

lemma wp_http_event:
  assumes cl: "clients k site lfd reqs" and j: "junk_ok j" and ok: "\<forall>c. \<forall>r \<in> set (reqs c). servable site n r"
    and inv: "loop_inv site lfd reqs (ev # es) h"
  shows "wp (http_event n k j lfd efd ev u) (\<lambda>_. loop_inv site lfd reqs es) (stop_inv k site lfd reqs) h"
proof -
  obtain c m where ev: "ev = (c, m)" by (cases ev)
  consider "m AND EPOLLIN = 0" | "m AND EPOLLIN \<noteq> 0" "c = lfd" | "m AND EPOLLIN \<noteq> 0" "c \<noteq> lfd" by blast
  then show ?thesis
  proof cases
    case 1
    then show ?thesis using inv by (simp add: ev http_event_def wp_simps loop_inv_def hits_Cons)
  next
    case 2
    then have "loop_inv site lfd reqs es h" using inv by (auto simp: ev loop_inv_def hits_Cons)
    with 2 show ?thesis by (simp add: ev http_event_def wp_do_accept_keeps)
  next
    case 3
    then have "served site reqs c (min (reported c h - hits c ((c, m) # es)) (length (reqs c))) h"
      using inv by (simp add: ev loop_inv_def)
    from wp_do_read_client[OF cl 3(2) j _ this, of n efd] ok
    show ?thesis using 3
      by (auto simp: ev http_event_def elim!: wp_mono intro: stop_inv_loop loop_inv_served[OF inv[unfolded ev]])
  qed
qed

lemma wp_http_round:
  assumes cl: "clients k site lfd reqs" and j: "junk_ok j" and ok: "\<forall>c. \<forall>r \<in> set (reqs c). servable site n r"
    and inv: "loop_inv site lfd reqs [] h"
  shows "wp (http_round n k j lfd efd u) (\<lambda>_. loop_inv site lfd reqs []) (stop_inv k site lfd reqs) h"
proof -
  let ?r = "k h (CEpollWait efd 2048 (-1))"
  let ?h = "(CEpollWait efd 2048 (-1), ?r) # h" and ?es = "take (nat (ret ?r)) (evs ?r)"
  have start: "loop_inv site lfd reqs ?es ?h"
    using inv by (auto simp: loop_inv_def served_def)
  have "wp (for_io ?es (http_event n k j lfd efd) ()) (\<lambda>_. loop_inv site lfd reqs []) (stop_inv k site lfd reqs) ?h"
    by (rule wp_for_io_rest[where I = "\<lambda>es _. loop_inv site lfd reqs es"]) (use start wp_http_event[OF cl j ok] in auto)
  then show ?thesis using start by (auto simp: http_round_def wp_simps intro: stop_inv_loop)
qed

lemma wp_init_listen:
  assumes "clients k site lfd reqs" and "loop_inv site lfd reqs [] h"
  shows "wp (init_listen_fd k port efd) (\<lambda>l h. l = lfd \<and> loop_inv site lfd reqs [] h) (stop_inv k site lfd reqs) h"
  using assms(2) stop_inv_loop[of site lfd reqs "[]"] clientsD(3)[OF assms(1)]
  by (auto simp: init_listen_fd_def wp_simps Let_def)

lemma wp_epoll_run_clients:
  assumes cl: "clients k site lfd reqs" and j: "junk_ok j" and ok: "\<forall>c. \<forall>r \<in> set (reqs c). servable site n r"
  shows "wp (epoll_run rounds n k j port) (\<lambda>_. loop_inv site lfd reqs []) (stop_inv k site lfd reqs) []"
proof -
  let ?h = "[(CEpollCreate 2048, k [] (CEpollCreate 2048))]"
  have "wp (init_listen_fd k port efd)
      (\<lambda>l h. l = lfd \<and> loop_inv site lfd reqs [] h) (stop_inv k site lfd reqs) ?h" for efd
    by (rule wp_init_listen[OF cl]) simp
  then have "wp (bnd (init_listen_fd k port efd) (\<lambda>l. times rounds (http_round n k j l efd) ()))
      (\<lambda>_. loop_inv site lfd reqs []) (stop_inv k site lfd reqs) ?h" for efd
    unfolding wp_bnd by (rule wp_mono) (auto intro: wp_times[where I = "\<lambda>_. loop_inv site lfd reqs []"] wp_http_round[OF cl j ok])
  then show ?thesis
    by (simp add: epoll_run_def wp_simps Let_def stop_inv_loop[of _ _ _ "[]"])
qed

section \<open>The sessions\<close>


text \<open>Two clients that ask for a picture and for a missing one; what is watched is reported in every round.\<close>

definition demo_site :: site where
  "demo_site f = (if f = ''cat.jpg'' then Regular ''picture'' else Missing)"

definition demo_reqs :: "int \<Rightarrow> request list" where
  "demo_reqs c =
     (if c = 7 then [\<lparr>r_lead = CHR ''/'', r_stem = ''cat'', r_ext = ''jpg'', r_headers = []\<rparr>]
      else if c = 8 then [\<lparr>r_lead = CHR ''/'', r_stem = ''dog'', r_ext = ''jpg'', r_headers = []\<rparr>] else [])"

fun accept_calls :: "history \<Rightarrow> nat" where
  "accept_calls [] = 0"
| "accept_calls ((c, r) # h) = accept_calls h + (case c of CAccept l \<Rightarrow> 1 | _ \<Rightarrow> 0)"

definition demo_clients :: kernel where
  "demo_clients h c =
     (case c of
        CRecv f n p \<Rightarrow> stream_kernel f (concat (map request_text (demo_reqs f))) 0 h c
      | CSocket d t p \<Rightarrow> mk_ret 4
      | CAccept l \<Rightarrow> mk_ret (7 + int (accept_calls h))
      | CEpollWait e n t \<Rightarrow>
          (let es = (if accept_calls h < 2 then [(4, 1)] else []) @ filter (\<lambda>(d, m). d \<in> watched e h) [(8, 1), (7, 1)]
           in mk_ret (int (length es))\<lparr>evs := es\<rparr>)
      | CStat f \<Rightarrow> site_kernel demo_site h c
      | COpen f \<Rightarrow> mk_ret 9
      | CRead fd n \<Rightarrow> site_kernel demo_site h c
      | CSend fd b \<Rightarrow> mk_ret (int (length b))
      | _ \<Rightarrow> mk_ret 0)"

lemma demo_clients_ok: "clients demo_clients demo_site 4 demo_reqs"
proof -
  have "file_system demo_clients demo_site"
    by (rule file_system_same[OF site_kernel_files]) (simp_all add: demo_clients_def site_kernel_def)
  then show ?thesis
    by (simp add: clients_def stream_at_def send_room_def Let_def demo_clients_def stream_kernel_def)
qed

lemma demo_never_fails: "\<not> failed demo_clients h"
proof -
  have "must_succeed c \<Longrightarrow> ret (demo_clients h c) \<noteq> -1" for h c
    by (cases c) (simp_all add: demo_clients_def Let_def)
  then show ?thesis by (auto simp: failed_def)
qed

lemma demo_servable: "\<forall>c. \<forall>r \<in> set (demo_reqs c). servable demo_site 9 r"
  by (simp add: demo_reqs_def demo_site_def servable_def r_file_def path_ok_def file_name_ok_def is_space_def is_jpg_def
      numeral_3_eq_3)


end
