(* ===== verification/Pool_Queue.thy ===== *)
theory Pool_Queue
  imports Net_Base "HOL-Library.Signed_Division"
begin

text \<open>
  The task queue of \<^verbatim>\<open>threadpool/main.c\<close>: a circular array of tasks with a
  front and a rear index and a count. \<open>put_task\<close> and \<open>take_task\<close> are the
  statements of \<^verbatim>\<open>threadpool_add\<close> and \<^verbatim>\<open>threadpool_thread\<close>
  that work on it; the locale \<open>bounded_fifo\<close> is the contract of a bounded queue, and
  they are interpreted as one. The indices are C \<^verbatim>\<open>int\<close>s; they stay below
  the size of the array, so their sums do not overflow. \<^verbatim>\<open>%\<close> is C's
  remainder, \<open>smod\<close>.
\<close>

section \<open>The contract of a bounded queue\<close>

datatype 'a qop = Enq 'a | Deq

text \<open>Running operations on a list: the abstract queue. \<open>None\<close> when full or empty.\<close>

fun list_run :: "nat \<Rightarrow> 'a list \<Rightarrow> 'a qop list \<Rightarrow> ('a list \<times> 'a list) option" where
  "list_run n xs [] = Some (xs, [])"
| "list_run n xs (Enq x # ops) = (if length xs < n then list_run n (xs @ [x]) ops else None)"
| "list_run n xs (Deq # ops) =
     (case xs of [] \<Rightarrow> None
      | x # xs' \<Rightarrow> map_option (\<lambda>(ys, out). (ys, x # out)) (list_run n xs' ops))"

text \<open>The same operations on an implementation, stopping where it stops.\<close>

fun queue_run :: "('a \<Rightarrow> 'q \<Rightarrow> stop + 'q) \<Rightarrow> ('q \<Rightarrow> stop + ('a \<times> 'q)) \<Rightarrow> 'q \<Rightarrow> 'a qop list \<Rightarrow>
    stop + ('q \<times> 'a list)" where
  "queue_run enq deq q [] = Inr (q, [])"
| "queue_run enq deq q (Enq x # ops) =
     (case enq x q of Inl e \<Rightarrow> Inl e | Inr q' \<Rightarrow> queue_run enq deq q' ops)"
| "queue_run enq deq q (Deq # ops) =
     (case deq q of Inl e \<Rightarrow> Inl e
      | Inr (x, q') \<Rightarrow>
          (case queue_run enq deq q' ops of Inl e \<Rightarrow> Inl e | Inr (r, out) \<Rightarrow> Inr (r, x # out)))"

lemma list_run_Enqs:
  "length xs + length ys \<le> n \<Longrightarrow> list_run n xs (map Enq ys @ ops) = list_run n (xs @ ys) ops"
  by (induction ys arbitrary: xs) auto

lemma list_run_Deqs:
  "list_run n (xs @ ys) (replicate (length xs) Deq) = Some (ys, xs)"
  by (induction xs) auto

locale bounded_fifo =
  fixes enq :: "'a \<Rightarrow> 'q \<Rightarrow> stop + 'q"
    and deq :: "'q \<Rightarrow> stop + ('a \<times> 'q)"
    and contents :: "'q \<Rightarrow> 'a list"
    and room :: "'q \<Rightarrow> nat"
    and ok :: "'q \<Rightarrow> bool"
  assumes within: "ok q \<Longrightarrow> length (contents q) \<le> room q"
    and enq_law: "ok q \<Longrightarrow> length (contents q) < room q \<Longrightarrow>
      \<exists>q'. enq x q = Inr q' \<and> ok q' \<and> contents q' = contents q @ [x] \<and> room q' = room q"
    and deq_law: "ok q \<Longrightarrow> contents q = x # xs \<Longrightarrow>
      \<exists>q'. deq q = Inr (x, q') \<and> ok q' \<and> contents q' = xs \<and> room q' = room q"
begin

lemma run_refines:
  assumes "ok q" and "list_run (room q) (contents q) ops = Some (ys, out)"
  shows "\<exists>q'. queue_run enq deq q ops = Inr (q', out) \<and> ok q' \<and> contents q' = ys \<and> room q' = room q"
  using assms
proof (induction ops arbitrary: q out)
  case Nil
  then show ?case by simp
next
  case (Cons x ops)
  show ?case
  proof (cases x)
    case (Enq a)
    with Cons.prems enq_law[of q a] obtain q' where
      "enq a q = Inr q'" "ok q'" "contents q' = contents q @ [a]" "room q' = room q"
      by (auto split: if_splits)
    with Cons.IH[of q' out] Cons.prems Enq show ?thesis by (auto split: if_splits)
  next
    case Deq
    with Cons.prems obtain b bs where bs: "contents q = b # bs"
      by (auto split: list.splits)
    with deq_law[OF Cons.prems(1) bs] obtain q' where
      "deq q = Inr (b, q')" "ok q'" "contents q' = bs" "room q' = room q" by blast
    moreover from Cons.prems(2) Deq bs obtain out' where
      "list_run (room q) bs ops = Some (ys, out')" "out = b # out'" by auto
    ultimately show ?thesis using Cons.IH[of q' out'] Deq by auto
  qed
qed

lemma run_first_in_first_out:
  assumes "ok q" and "contents q = []" and "length xs \<le> room q"
  shows "\<exists>q'. queue_run enq deq q (map Enq xs @ replicate (length xs) Deq) = Inr (q', xs) \<and> ok q' \<and> contents q' = []"
proof -
  have "list_run (room q) (contents q) (map Enq xs @ replicate (length xs) Deq) = Some ([], xs)"
    using assms(2,3) list_run_Enqs[of "[]" xs] list_run_Deqs[of _ xs "[]"] by simp
  from run_refines[OF assms(1) this] show ?thesis by auto
qed

end

section \<open>Tasks and the pool\<close>

text \<open>
  A task's function and argument are addresses, with \<open>0\<close> for
  \<^verbatim>\<open>NULL\<close>; a \<^verbatim>\<open>pthread_t\<close> is a number, \<open>0\<close> in a
  slot that holds no thread. The mutexes and condition variables are in the theory of the
  threads.
\<close>

record task =
  t_function :: nat
  t_arg :: nat

record pool =
  threads :: "nat list"
  adjust_tid :: nat
  task_queue :: "task list"
  min_thr_num :: int
  max_thr_num :: int
  live_thr_num :: int
  busy_thr_num :: int
  wait_exit_thr_num :: int
  queue_front :: int
  queue_rear :: int
  queue_size :: int
  queue_max_size :: int
  shutdown :: bool

definition in_array :: "int \<Rightarrow> 'a list \<Rightarrow> bool" where
  "in_array i xs \<longleftrightarrow> 0 \<le> i \<and> i < int (length xs)"

text \<open>The statements of \<^verbatim>\<open>threadpool_add\<close> between its wait and its signal.\<close>

definition put_task :: "nat \<Rightarrow> nat \<Rightarrow> pool \<Rightarrow> stop + pool" where
  "put_task f a p =
     (let r = queue_rear p in
      if \<not> in_array r (task_queue p) then Inl (Undef OutOfBounds)
      else let t = task_queue p ! nat r;
               t = (if t_arg t \<noteq> 0 then t\<lparr>t_arg := 0\<rparr> else t);
               t = t\<lparr>t_function := f\<rparr>;
               t = t\<lparr>t_arg := a\<rparr>
           in if queue_max_size p = 0 then Inl (Undef DivByZero)
              else Inr (p\<lparr>task_queue := (task_queue p)[nat r := t],
                          queue_rear := (r + 1) smod queue_max_size p,
                          queue_size := queue_size p + 1\<rparr>))"

text \<open>The statements of \<^verbatim>\<open>threadpool_thread\<close> that take a task out.\<close>

definition take_task :: "pool \<Rightarrow> stop + (task \<times> pool)" where
  "take_task p =
     (let f = queue_front p in
      if \<not> in_array f (task_queue p) then Inl (Undef OutOfBounds)
      else let t = \<lparr>t_function = t_function (task_queue p ! nat f), t_arg = t_arg (task_queue p ! nat f)\<rparr>
           in if queue_max_size p = 0 then Inl (Undef DivByZero)
              else Inr (t, p\<lparr>queue_front := (f + 1) smod queue_max_size p,
                             queue_size := queue_size p - 1\<rparr>))"

section \<open>The queue as a list\<close>

definition queue_ok :: "pool \<Rightarrow> bool" where
  "queue_ok p \<longleftrightarrow>
     int (length (task_queue p)) = queue_max_size p \<and> 0 < queue_max_size p \<and>
     0 \<le> queue_front p \<and> queue_front p < queue_max_size p \<and>
     0 \<le> queue_size p \<and> queue_size p \<le> queue_max_size p \<and>
     queue_rear p = (queue_front p + queue_size p) mod queue_max_size p"

definition slot :: "pool \<Rightarrow> nat \<Rightarrow> task" where
  "slot p i = task_queue p ! ((nat (queue_front p) + i) mod length (task_queue p))"

definition queue_tasks :: "pool \<Rightarrow> task list" where
  "queue_tasks p = map (slot p) [0..<nat (queue_size p)]"

definition queue_room :: "pool \<Rightarrow> nat" where
  "queue_room p = nat (queue_max_size p)"

definition put :: "task \<Rightarrow> pool \<Rightarrow> stop + pool" where
  "put t p = put_task (t_function t) (t_arg t) p"

lemma task_copy [simp]: "(u :: task)\<lparr>t_function := t_function t, t_arg := t_arg t\<rparr> = t"
  by (cases u; cases t) simp

text \<open>The circular array in natural numbers: capacity, front and count.\<close>

lemma queue_okE:
  assumes "queue_ok p"
  obtains n f s where "length (task_queue p) = n" "queue_max_size p = int n" "0 < n"
    "queue_front p = int f" "f < n" "queue_size p = int s" "s \<le> n"
    "queue_rear p = int ((f + s) mod n)"
proof -
  let ?n = "length (task_queue p)" and ?f = "nat (queue_front p)" and ?s = "nat (queue_size p)"
  have "queue_rear p = int ((?f + ?s) mod ?n)"
    using assms by (simp add: queue_ok_def zmod_int)
  then show thesis
    by (intro that[of ?n ?f ?s]) (use assms in \<open>auto simp: queue_ok_def\<close>)
qed

lemma smod_nat: "int a smod int b = int (a mod b)"
  by (simp add: signed_modulo_int_def sgn_if zmod_int)

lemma slot_fresh:
  assumes "f < n" "i < s" "s < (n::nat)"
  shows "(f + i) mod n \<noteq> (f + s) mod n"
proof
  assume eq: "(f + i) mod n = (f + s) mod n"
  then have "n dvd s - i" using assms by (metis add_diff_cancel_left mod_eq_dvd_iff_nat nat_add_left_cancel_le less_imp_le_nat)
  then show False using assms by (auto dest: dvd_imp_le)
qed

lemma put_law:
  assumes ok: "queue_ok p" and lt: "length (queue_tasks p) < queue_room p"
  shows "\<exists>p'. put t p = Inr p' \<and> queue_ok p' \<and> queue_tasks p' = queue_tasks p @ [t] \<and>
    queue_room p' = queue_room p"
proof -
  from ok obtain n f s where
    l: "length (task_queue p) = n" "queue_max_size p = int n" "0 < n" "queue_front p = int f" "f < n"
    "queue_size p = int s" "s \<le> n" "queue_rear p = int ((f + s) mod n)"
    by (rule queue_okE)
  have s: "s < n" using lt l by (simp add: queue_tasks_def queue_room_def)
  let ?r = "(f + s) mod n"
  have r: "?r < n" using l by simp
  define p' where "p' = p\<lparr>task_queue := (task_queue p)[?r := t],
      queue_rear := int (Suc ?r mod n), queue_size := int s + 1\<rparr>"
  have "(int ?r + 1) smod int n = int (Suc ?r mod n)"
    using smod_nat[of "Suc ?r" n] by (simp add: ac_simps)
  then have run: "put t p = Inr p'"
    using l r by (simp add: put_def put_task_def in_array_def Let_def p'_def)
  have "queue_ok p'"
    using l s by (simp add: queue_ok_def p'_def mod_Suc_eq zmod_int ac_simps)
  moreover have "slot p' i = slot p i" if "i < s" for i
    using slot_fresh[OF l(5) that s] l by (simp add: slot_def p'_def)
  moreover have "slot p' s = t" using l r by (simp add: slot_def p'_def)
  moreover have "nat (queue_size p') = Suc s" "nat (queue_size p) = s" "queue_room p' = queue_room p"
    using l by (simp_all add: p'_def queue_room_def nat_add_distrib)
  ultimately show ?thesis
    using run by (simp add: queue_tasks_def)
qed

lemma take_law:
  assumes ok: "queue_ok p" and q: "queue_tasks p = x # xs"
  shows "\<exists>p'. take_task p = Inr (x, p') \<and> queue_ok p' \<and> queue_tasks p' = xs \<and> queue_room p' = queue_room p"
proof -
  from ok obtain n f s where
    l: "length (task_queue p) = n" "queue_max_size p = int n" "0 < n" "queue_front p = int f" "f < n"
    "queue_size p = int s" "s \<le> n" "queue_rear p = int ((f + s) mod n)"
    by (rule queue_okE)
  have xs: "map (slot p) [0..<s] = x # xs" using q l by (simp add: queue_tasks_def)
  then obtain m where m: "s = Suc m" by (cases s) auto
  define p' where "p' = p\<lparr>queue_front := int (Suc f mod n), queue_size := int m\<rparr>"
  have x: "x = slot p 0" and tl: "xs = map (slot p \<circ> Suc) [0..<m]"
    using xs m by (simp_all add: upt_conv_Cons map_Suc_upt [symmetric] del: upt_Suc)
  have "(int f + 1) smod int n = int (Suc f mod n)"
    using smod_nat[of "Suc f" n] by (simp add: ac_simps)
  then have run: "take_task p = Inr (x, p')"
    using l m by (simp add: take_task_def in_array_def Let_def p'_def x slot_def)
  have "queue_ok p'"
    using l m by (simp add: queue_ok_def p'_def mod_add_right_eq zmod_int ac_simps)
  moreover have "slot p' i = slot p (Suc i)" for i
    using l by (simp add: slot_def p'_def mod_add_left_eq)
  ultimately show ?thesis
    using run l by (auto simp: queue_tasks_def queue_room_def p'_def tl)
qed

interpretation tq: bounded_fifo put take_task queue_tasks queue_room queue_ok
proof
  show "queue_ok q \<Longrightarrow> length (queue_tasks q) \<le> queue_room q" for q
    by (auto simp: queue_ok_def queue_tasks_def queue_room_def)
qed (use put_law take_law in blast)+

end
