(* ===== verification/Pool_Life.thy ===== *)
theory Pool_Life
  imports Pool_Queue
begin

text \<open>
  The life of a pool in \<^verbatim>\<open>threadpool/main.c\<close>: creation with every way its
  allocations and initialisations can fail, the manager's adjustment of the number of
  threads, destruction and freeing. Mutexes follow POSIX: locking one that another thread
  holds waits, and using one that is not initialised, unlocking one the caller does not
  hold, and destroying one that is held are undefined.
\<close>

section \<open>Mutexes\<close>

datatype mutex = Raw | Unlocked | Locked nat

definition mutex_lock :: "nat \<Rightarrow> mutex \<Rightarrow> stop + mutex" where
  "mutex_lock me m =
     (case m of Raw \<Rightarrow> Inl (Undef UninitMutex) | Unlocked \<Rightarrow> Inr (Locked me) | Locked i \<Rightarrow> Inl Blocked)"

definition mutex_unlock :: "nat \<Rightarrow> mutex \<Rightarrow> stop + mutex" where
  "mutex_unlock me m = (if m = Locked me then Inr Unlocked else Inl (Undef UnlockNotOwner))"

definition mutex_destroy :: "mutex \<Rightarrow> stop + mutex" where
  "mutex_destroy m =
     (case m of Raw \<Rightarrow> Inl (Undef UninitMutex) | Unlocked \<Rightarrow> Inr Raw | Locked i \<Rightarrow> Inl (Undef DestroyLocked))"

definition andthen :: "stop + 'a \<Rightarrow> ('a \<Rightarrow> stop + 'b) \<Rightarrow> stop + 'b" where
  "andthen x f = (case x of Inl e \<Rightarrow> Inl e | Inr a \<Rightarrow> f a)"

lemma andthen_simps [simp]: "andthen (Inl e) f = Inl e" "andthen (Inr a) f = f a"
  by (simp_all add: andthen_def)

section \<open>Freeing\<close>

text \<open>
  What \<^verbatim>\<open>threadpool_free\<close> looks at: its two array pointers (not yet assigned,
  null, or a block), its mutexes, and whether its condition variables are initialised.
\<close>

datatype ptr = Garbage | Null | Block

record pool_mem =
  m_task_queue :: ptr
  m_threads :: ptr
  m_lock :: mutex
  m_counter :: mutex

definition threadpool_free :: "nat \<Rightarrow> pool_mem option \<Rightarrow> stop + int" where
  "threadpool_free me pm =
     (case pm of
        None \<Rightarrow> Inr (-1)
      | Some m \<Rightarrow>
          if m_task_queue m = Garbage then Inl (Undef UninitUse)
          else if m_threads m = Garbage then Inl (Undef UninitUse)
          else if m_threads m = Null then Inr 0
          else andthen (mutex_lock me (m_lock m)) (\<lambda>l.
               andthen (mutex_destroy l) (\<lambda>_.
               andthen (mutex_lock me (m_counter m)) (\<lambda>c.
               andthen (mutex_destroy c) (\<lambda>_. Inr 0)))))"

section \<open>Creating\<close>

text \<open>
  The outcomes of the library calls of \<^verbatim>\<open>threadpool_create\<close>: which
  allocations and initialisations succeed, what the allocated task array holds, and the
  identifiers \<^verbatim>\<open>pthread_create\<close> gives. On the 64-bit machines the code
  is built for a task takes 16 bytes and a \<^verbatim>\<open>pthread_t\<close> 8, so the
  \<open>threads\<close> block, allocated as \<open>queue_max_size\<close> tasks, has room for
  \<open>2 * queue_max_size\<close> thread identifiers.
\<close>

record create_env =
  ok_pool :: bool
  ok_threads :: bool
  ok_queue :: bool
  ok_lock :: bool
  ok_counter :: bool
  ok_not_empty :: bool
  ok_not_full :: bool
  raw_tasks :: "nat \<Rightarrow> task"
  raw_tid :: nat
  new_tid :: "nat \<Rightarrow> nat"
  new_adjust :: nat

definition threads_room :: "int \<Rightarrow> nat" where
  "threads_room qmax = nat (16 * qmax) div 8"

text \<open>\<^verbatim>\<open>memset\<close> of the first \<open>n\<close> elements of the thread array.\<close>

definition clear_threads :: "int \<Rightarrow> nat list \<Rightarrow> stop + nat list" where
  "clear_threads n ts =
     (if n < 0 \<or> int (length ts) < n then Inl (Undef OutOfBounds)
      else Inr (replicate (nat n) 0 @ drop (nat n) ts))"

fun start_threads :: "create_env \<Rightarrow> nat \<Rightarrow> nat \<Rightarrow> nat list \<Rightarrow> stop + nat list" where
  "start_threads e 0 i ts = Inr ts"
| "start_threads e (Suc m) i ts =
     (if i < length ts then start_threads e m (Suc i) (ts[i := new_tid e i])
      else Inl (Undef OutOfBounds))"

definition fresh_pool :: "create_env \<Rightarrow> int \<Rightarrow> int \<Rightarrow> int \<Rightarrow> nat list \<Rightarrow> pool" where
  "fresh_pool e mn mx qmax ts =
     \<lparr>threads = ts, adjust_tid = new_adjust e,
      task_queue = map (raw_tasks e) [0..<nat qmax],
      min_thr_num = mn, max_thr_num = mx, live_thr_num = 0, busy_thr_num = 0,
      wait_exit_thr_num = 0, queue_front = 0, queue_rear = 0, queue_size = 0,
      queue_max_size = qmax, shutdown = False\<rparr>"

definition free_null :: "nat \<Rightarrow> pool_mem option \<Rightarrow> stop + pool option" where
  "free_null me pm = andthen (threadpool_free me pm) (\<lambda>_. Inr None)"

definition threadpool_create :: "create_env \<Rightarrow> nat \<Rightarrow> int \<Rightarrow> int \<Rightarrow> int \<Rightarrow> stop + pool option" where
  "threadpool_create e me mn mx qmax =
     (if \<not> ok_pool e then free_null me None
      else if \<not> ok_threads e
      then free_null me (Some \<lparr>m_task_queue = Garbage, m_threads = Null, m_lock = Raw, m_counter = Raw\<rparr>)
      else andthen (clear_threads mx (replicate (threads_room qmax) (raw_tid e))) (\<lambda>ts.
        if \<not> ok_queue e
        then free_null me (Some \<lparr>m_task_queue = Null, m_threads = Block, m_lock = Raw, m_counter = Raw\<rparr>)
        else if \<not> ok_lock e
        then free_null me (Some \<lparr>m_task_queue = Block, m_threads = Block, m_lock = Raw, m_counter = Raw\<rparr>)
        else if \<not> ok_counter e
        then free_null me (Some \<lparr>m_task_queue = Block, m_threads = Block, m_lock = Unlocked, m_counter = Raw\<rparr>)
        else if \<not> ok_not_empty e \<or> \<not> ok_not_full e
        then free_null me (Some \<lparr>m_task_queue = Block, m_threads = Block, m_lock = Unlocked, m_counter = Unlocked\<rparr>)
        else andthen (start_threads e (nat mn) 0 ts) (\<lambda>ts'. Inr (Some (fresh_pool e mn mx qmax ts')))))"

section \<open>Adjusting\<close>

text \<open>
  The manager's loop that starts threads, at index \<open>i\<close> with \<open>m\<close> indices
  left and \<open>add\<close> threads started so far. \<open>tid\<close> is the identifier the next
  \<^verbatim>\<open>pthread_create\<close> gives. It starts a thread in a slot that
  \<^emph>\<open>holds\<close> an identifier, and writes the new one over it.
\<close>

abbreviation (input) MIN_WAIT_TSK_NUM :: int where "MIN_WAIT_TSK_NUM \<equiv> 10"
abbreviation (input) DEFAULT_THREAD_VARY :: int where "DEFAULT_THREAD_VARY \<equiv> 10"

fun grow :: "nat \<Rightarrow> nat \<Rightarrow> int \<Rightarrow> nat \<Rightarrow> pool \<Rightarrow> stop + pool" where
  "grow 0 i add tid p = Inr p"
| "grow (Suc m) i add tid p =
     (if add < DEFAULT_THREAD_VARY \<and> live_thr_num p < max_thr_num p
      then if \<not> i < length (threads p) then Inl (Undef OutOfBounds)
           else if threads p ! i \<noteq> 0
           then grow m (Suc i) (add + 1) (Suc tid)
                  (p\<lparr>threads := (threads p)[i := tid], live_thr_num := live_thr_num p + 1\<rparr>)
           else grow m (Suc i) add tid p
      else Inr p)"

text \<open>
  One round of the manager, on the counters it copied under the locks. The result also
  says how often it signals \<^verbatim>\<open>queue_not_empty\<close>.
\<close>

definition adjust_round :: "nat \<Rightarrow> pool \<Rightarrow> stop + (pool \<times> nat)" where
  "adjust_round tid p =
     (let qs = queue_size p; live = live_thr_num p; busy = busy_thr_num p in
      andthen (if MIN_WAIT_TSK_NUM \<le> qs \<and> live < max_thr_num p
               then grow (nat (max_thr_num p)) 0 0 tid p else Inr p) (\<lambda>p'.
        if busy * 2 < live \<and> min_thr_num p' < live
        then Inr (p'\<lparr>wait_exit_thr_num := DEFAULT_THREAD_VARY\<rparr>, 10)
        else Inr (p', 0)))"

section \<open>Destroying\<close>

text \<open>
  What \<^verbatim>\<open>treadpool_destory\<close> does to the threads, in order, before it frees the
  pool: it joins the manager, wakes waiting workers, and joins workers.
\<close>

datatype pool_call = Join nat | BroadcastNotEmpty

definition destroy_calls :: "pool \<Rightarrow> pool_call list" where
  "destroy_calls p =
     Join (adjust_tid p) # replicate (nat (live_thr_num p)) BroadcastNotEmpty
       @ map Join (take (nat (live_thr_num p)) (threads p))"

definition treadpool_destory :: "nat \<Rightarrow> pool option \<Rightarrow> mutex \<Rightarrow> mutex \<Rightarrow> (stop + int) \<times> pool_call list" where
  "treadpool_destory me po l c =
     (case po of
        None \<Rightarrow> (Inr (-1), [])
      | Some p0 \<Rightarrow>
          let p = p0\<lparr>shutdown := True\<rparr> in
          if int (length (threads p)) < live_thr_num p then (Inl (Undef OutOfBounds), destroy_calls p)
          else (andthen (threadpool_free me
                  (Some \<lparr>m_task_queue = Block, m_threads = Block, m_lock = l, m_counter = c\<rparr>)) (\<lambda>_. Inr 0),
                destroy_calls p))"

section \<open>Lemmas\<close>

lemma free_never_returns_0:
  "m_threads m = Block \<Longrightarrow> \<exists>e. threadpool_free me (Some m) = Inl e"
  by (cases "m_task_queue m"; cases "m_lock m")
    (auto simp: threadpool_free_def mutex_lock_def mutex_destroy_def)

lemma clear_threads_length: "clear_threads n ts = Inr ts' \<Longrightarrow> length ts' = length ts"
  by (auto simp: clear_threads_def split: if_splits)

lemma start_threads_result:
  "start_threads e m i ts = Inr ts' \<Longrightarrow>
     length ts' = length ts \<and> i + m \<le> max i (length ts) \<and>
     (\<forall>j < length ts. ts' ! j = (if i \<le> j \<and> j < i + m then new_tid e j else ts ! j))"
  by (induction e m i ts rule: start_threads.induct) (fastforce split: if_splits simp: nth_list_update)+

lemma create_success:
  assumes "threadpool_create e me mn mx qmax = Inr (Some p)"
  shows "\<exists>ts. p = fresh_pool e mn mx qmax ts \<and> length ts = threads_room qmax \<and> 0 \<le> mx \<and>
      mx \<le> int (threads_room qmax) \<and> nat mn \<le> threads_room qmax \<and>
      (\<forall>j < threads_room qmax. ts ! j =
         (if j < nat mn then new_tid e j else if j < nat mx then 0 else raw_tid e))"
proof -
  have free: "free_null me x \<noteq> Inr (Some p)" for x
    by (cases "threadpool_free me x") (auto simp: free_null_def)
  from assms obtain ts0 ts where
    ts0: "clear_threads mx (replicate (threads_room qmax) (raw_tid e)) = Inr ts0"
    and ts: "start_threads e (nat mn) 0 ts0 = Inr ts" and p: "p = fresh_pool e mn mx qmax ts"
    using free by (auto simp: threadpool_create_def andthen_def split: if_splits sum.splits)
  have mx: "0 \<le> mx" "mx \<le> int (threads_room qmax)"
    and ts0': "ts0 = replicate (nat mx) 0 @ replicate (threads_room qmax - nat mx) (raw_tid e)"
    using ts0 by (auto simp: clear_threads_def split: if_splits)
  have len: "length ts0 = threads_room qmax" using mx by (simp add: ts0')
  show ?thesis
    using start_threads_result[OF ts] mx p len
    by (intro exI[of _ ts]) (auto simp: ts0' nth_append)
qed

text \<open>What the manager's loop keeps: empty slots stay empty, and the counts stay within bounds.\<close>

lemma grow_bounds:
  assumes "grow m i add tid p = Inr p'" and "0 < tid" and "add \<le> 10" and "live_thr_num p \<le> max_thr_num p"
  shows "live_thr_num p \<le> live_thr_num p' \<and> live_thr_num p' \<le> max_thr_num p \<and>
    live_thr_num p' - live_thr_num p \<le> 10 - add \<and> length (threads p') = length (threads p) \<and>
    (\<forall>j < length (threads p). threads p' ! j = 0 \<longleftrightarrow> threads p ! j = 0) \<and>
    max_thr_num p' = max_thr_num p \<and> min_thr_num p' = min_thr_num p"
  using assms
proof (induction m i add tid p arbitrary: p' rule: grow.induct)
  case (1 i add tid p)
  then show ?case by simp
next
  case (2 m i add tid p)
  show ?case
  proof (cases "add < 10 \<and> live_thr_num p < max_thr_num p \<and> i < length (threads p)")
    case False
    with "2.prems" show ?thesis by (auto split: if_splits)
  next
    case c: True
    show ?thesis
    proof (cases "threads p ! i = 0")
      case True
      with c "2.prems" "2.IH"(2)[of p'] show ?thesis by auto
    next
      case False
      let ?p = "p\<lparr>threads := (threads p)[i := tid], live_thr_num := live_thr_num p + 1\<rparr>"
      have "grow m (Suc i) (add + 1) (Suc tid) ?p = Inr p'" using c False "2.prems"(1) by simp
      with c False "2.prems" "2.IH"(1)[of p'] show ?thesis
        by (auto simp: nth_list_update)
    qed
  qed
qed

text \<open>
  The number of threads it starts: with identifiers in the first \<open>c\<close> slots only, at
  most \<open>c\<close>.
\<close>

lemma grow_count:
  assumes "grow m i add tid p = Inr p'"
  shows "live_thr_num p' - live_thr_num p \<le> int (length (filter (\<lambda>t. t \<noteq> 0) (drop i (threads p))))"
  using assms
proof (induction m i add tid p arbitrary: p' rule: grow.induct)
  case (1 i add tid p)
  then show ?case by simp
next
  case (2 m i add tid p)
  show ?case
  proof (cases "add < 10 \<and> live_thr_num p < max_thr_num p \<and> i < length (threads p)")
    case False
    with "2.prems" show ?thesis by (auto split: if_splits)
  next
    case c: True
    then have d: "drop i (threads p) = threads p ! i # drop (Suc i) (threads p)"
      by (simp add: Cons_nth_drop_Suc)
    show ?thesis
    proof (cases "threads p ! i = 0")
      case True
      with c "2.prems" "2.IH"(2)[of p'] d show ?thesis by auto
    next
      case False
      with c "2.prems" "2.IH"(1)[of p'] d show ?thesis by auto
    qed
  qed
qed

end
