(* ===== verification/Pool_Threads.thy ===== *)
theory Pool_Threads
  imports Pool_Life
begin

text \<open>
  The threads of \<^verbatim>\<open>threadpool/main.c\<close> interleaved: workers
  (\<^verbatim>\<open>threadpool_thread\<close>), the manager
  (\<^verbatim>\<open>adjust_thread\<close>) and callers, which make a list of calls of
  \<^verbatim>\<open>threadpool_add\<close> and \<^verbatim>\<open>treadpool_destory\<close>. A thread
  has a program counter; one step runs one statement that touches the shared pool. The first
  step that C or POSIX leaves undefined is recorded as the fault, and ends the run.
\<close>

section \<open>Threads\<close>

datatype pool_op = Add nat nat | Destroy

text \<open>
  Program counters, with the line each one stands before. \<open>W_Sleep\<close> waits for
  \<^verbatim>\<open>queue_not_empty\<close>, \<open>A_Sleep\<close> for
  \<^verbatim>\<open>queue_not_fu11\<close>; a woken thread has to get the lock again.
\<close>

datatype wpc =
    W_Head | W_CondWait | W_Sleep | W_Wake | W_Exit1 | W_Exit2 | W_ExitLock | W_Shut
  | W_ShutLock | W_Detach | W_TakeF | W_TakeA | W_Front | W_Size | W_Bcast | W_Unlock
  | W_CLock1 | W_Busy | W_CUnlock1 | W_Run | W_CLock2 | W_Free | W_CUnlock2 | W_Gone

datatype mpc =
    M_Head | M_Lock | M_Read1 | M_Read2 | M_Unlock | M_CLock | M_Busy | M_CUnlock | M_Grow
  | M_GLock | M_Start | M_GUnlock | M_Shrink | M_ELock | M_Exit | M_EUnlock | M_Signal
  | M_Gone

datatype apc =
    A_Lock | A_Head | A_CondWait | A_Sleep | A_Wake | A_Shut | A_SBcast | A_SUnlock
  | A_Clear | A_Fn | A_Arg | A_Rear | A_Size | A_Signal | A_Unlock

datatype dpc =
    D_Set | D_JoinM | D_Bcast | D_JoinW | D_Free

datatype pc = W wpc | M mpc | A apc | D dpc | Idle

text \<open>
  A thread's local variables: the function and argument it adds or runs, the manager's three
  counters, a loop index, and the calls a caller has still to make.
\<close>

record actor =
  pc :: pc
  l_fn :: nat
  l_arg :: nat
  l_qs :: int
  l_live :: int
  l_busy :: int
  l_n :: nat
  todo :: "pool_op list"

record psys =
  mem :: pool
  lock_m :: mutex
  counter_m :: mutex
  actors :: "actor list"
  executed :: "task list"
  fault :: "ub option"

definition new_actor :: "pc \<Rightarrow> pool_op list \<Rightarrow> actor" where
  "new_actor p ops = \<lparr>pc = p, l_fn = 0, l_arg = 0, l_qs = 0, l_live = 0, l_busy = 0, l_n = 0, todo = ops\<rparr>"

section \<open>Single statements\<close>

definition upd :: "nat \<Rightarrow> (actor \<Rightarrow> actor) \<Rightarrow> psys \<Rightarrow> psys" where
  "upd i f s = s\<lparr>actors := (actors s)[i := f (actors s ! i)]\<rparr>"

definition goto :: "nat \<Rightarrow> pc \<Rightarrow> psys \<Rightarrow> psys" where
  "goto i p s = upd i (\<lambda>a. a\<lparr>pc := p\<rparr>) s"

definition crash :: "ub \<Rightarrow> psys \<Rightarrow> psys" where
  "crash u s = s\<lparr>fault := Some u\<rparr>"

text \<open>A statement on the pool's fields, then the next program counter.\<close>

definition on_mem :: "nat \<Rightarrow> (pool \<Rightarrow> pool) \<Rightarrow> pc \<Rightarrow> psys \<Rightarrow> psys option" where
  "on_mem i f p s = Some (goto i p (s\<lparr>mem := f (mem s)\<rparr>))"

text \<open>Locking waits (no step) while another thread, or the thread itself, holds the mutex.\<close>

definition result :: "(mutex \<Rightarrow> psys) \<Rightarrow> psys \<Rightarrow> stop + mutex \<Rightarrow> psys option" where
  "result f s x =
     (case x of Inr m \<Rightarrow> Some (f m) | Inl (Undef u) \<Rightarrow> Some (crash u s) | Inl _ \<Rightarrow> None)"

definition lock_pool :: "nat \<Rightarrow> pc \<Rightarrow> psys \<Rightarrow> psys option" where
  "lock_pool i p s = result (\<lambda>m. goto i p (s\<lparr>lock_m := m\<rparr>)) s (mutex_lock i (lock_m s))"

definition unlock_pool :: "nat \<Rightarrow> pc \<Rightarrow> psys \<Rightarrow> psys option" where
  "unlock_pool i p s = result (\<lambda>m. goto i p (s\<lparr>lock_m := m\<rparr>)) s (mutex_unlock i (lock_m s))"

definition lock_counter :: "nat \<Rightarrow> pc \<Rightarrow> psys \<Rightarrow> psys option" where
  "lock_counter i p s = result (\<lambda>m. goto i p (s\<lparr>counter_m := m\<rparr>)) s (mutex_lock i (counter_m s))"

definition unlock_counter :: "nat \<Rightarrow> pc \<Rightarrow> psys \<Rightarrow> psys option" where
  "unlock_counter i p s = result (\<lambda>m. goto i p (s\<lparr>counter_m := m\<rparr>)) s (mutex_unlock i (counter_m s))"

text \<open>Waiting on a condition releases the pool's lock, which the caller has to hold.\<close>

definition cond_wait :: "nat \<Rightarrow> pc \<Rightarrow> psys \<Rightarrow> psys option" where
  "cond_wait i p s =
     (if lock_m s = Locked i then Some (goto i p (s\<lparr>lock_m := Unlocked\<rparr>))
      else Some (crash WaitUnlocked s))"

definition wake_all :: "pc \<Rightarrow> pc \<Rightarrow> psys \<Rightarrow> psys" where
  "wake_all p q s = s\<lparr>actors := map (\<lambda>a. if pc a = p then a\<lparr>pc := q\<rparr> else a) (actors s)\<rparr>"

definition at_pc :: "pc \<Rightarrow> nat \<Rightarrow> psys \<Rightarrow> bool" where
  "at_pc p i s \<longleftrightarrow> i < length (actors s) \<and> pc (actors s ! i) = p"

text \<open>\<^verbatim>\<open>pthread_cond_signal\<close>: the waiter \<open>j\<close>, or nobody when nobody waits.\<close>

definition wake_one :: "nat \<Rightarrow> pc \<Rightarrow> pc \<Rightarrow> psys \<Rightarrow> psys option" where
  "wake_one j p q s =
     (if \<not> list_ex (\<lambda>a. pc a = p) (actors s) then Some s
      else if at_pc p j s then Some (goto j q s) else None)"

text \<open>An access to the task array at an index.\<close>

definition at_slot :: "int \<Rightarrow> psys \<Rightarrow> (nat \<Rightarrow> psys option) \<Rightarrow> psys option" where
  "at_slot r s f = (if in_array r (task_queue (mem s)) then f (nat r) else Some (crash OutOfBounds s))"

definition wrap_next :: "int \<Rightarrow> psys \<Rightarrow> (int \<Rightarrow> psys option) \<Rightarrow> psys option" where
  "wrap_next r s f =
     (if queue_max_size (mem s) = 0 then Some (crash DivByZero s) else f ((r + 1) smod queue_max_size (mem s)))"

section \<open>The worker\<close>

definition worker_step :: "nat \<Rightarrow> wpc \<Rightarrow> actor \<Rightarrow> psys \<Rightarrow> psys option" where
  "worker_step i w a s =
     (let p = mem s; t = \<lparr>t_function = l_fn a, t_arg = l_arg a\<rparr> in
      case w of
        W_Head \<Rightarrow> Some (goto i (if queue_size p = 0 \<and> \<not> shutdown p then W W_CondWait else W W_Shut) s)
      | W_CondWait \<Rightarrow> cond_wait i (W W_Sleep) s
      | W_Wake \<Rightarrow> lock_pool i (W W_Exit1) s
      | W_Exit1 \<Rightarrow>
          if 0 < wait_exit_thr_num p
          then on_mem i (\<lambda>p. p\<lparr>wait_exit_thr_num := wait_exit_thr_num p - 1\<rparr>) (W W_Exit2) s
          else Some (goto i (W W_Head) s)
      | W_Exit2 \<Rightarrow>
          if min_thr_num p < live_thr_num p
          then on_mem i (\<lambda>p. p\<lparr>live_thr_num := live_thr_num p - 1\<rparr>) (W W_ExitLock) s
          else Some (goto i (W W_Head) s)
      | W_ExitLock \<Rightarrow> lock_pool i (W W_Gone) s
      | W_Shut \<Rightarrow> Some (goto i (if shutdown p then W W_ShutLock else W W_TakeF) s)
      | W_ShutLock \<Rightarrow> lock_pool i (W W_Detach) s
      | W_Detach \<Rightarrow> Some (goto i (W W_Gone) s)
      | W_TakeF \<Rightarrow> at_slot (queue_front p) s (\<lambda>n.
          Some (goto i (W W_TakeA) (upd i (\<lambda>a. a\<lparr>l_fn := t_function (task_queue p ! n)\<rparr>) s)))
      | W_TakeA \<Rightarrow> at_slot (queue_front p) s (\<lambda>n.
          Some (goto i (W W_Front) (upd i (\<lambda>a. a\<lparr>l_arg := t_arg (task_queue p ! n)\<rparr>) s)))
      | W_Front \<Rightarrow> wrap_next (queue_front p) s (\<lambda>f. on_mem i (\<lambda>p. p\<lparr>queue_front := f\<rparr>) (W W_Size) s)
      | W_Size \<Rightarrow> on_mem i (\<lambda>p. p\<lparr>queue_size := queue_size p - 1\<rparr>) (W W_Bcast) s
      | W_Bcast \<Rightarrow> Some (goto i (W W_Unlock) (wake_all (A A_Sleep) (A A_Wake) s))
      | W_Unlock \<Rightarrow> unlock_pool i (W W_CLock1) s
      | W_CLock1 \<Rightarrow> lock_counter i (W W_Busy) s
      | W_Busy \<Rightarrow> on_mem i (\<lambda>p. p\<lparr>busy_thr_num := busy_thr_num p + 1\<rparr>) (W W_CUnlock1) s
      | W_CUnlock1 \<Rightarrow> unlock_counter i (W W_Run) s
      | W_Run \<Rightarrow> Some (goto i (W W_CLock2) (s\<lparr>executed := executed s @ [t]\<rparr>))
      | W_CLock2 \<Rightarrow> lock_counter i (W W_Free) s
      | W_Free \<Rightarrow> on_mem i (\<lambda>p. p\<lparr>busy_thr_num := busy_thr_num p - 1\<rparr>) (W W_CUnlock2) s
      | W_CUnlock2 \<Rightarrow> unlock_counter i (W W_Head) s
      | _ \<Rightarrow> None)"

section \<open>The manager\<close>

text \<open>
  The manager's growth loop runs as one step, under the lock it holds; the threads it starts
  are new actors, and their identifiers are their positions counted from one.
\<close>

definition start_more :: "nat \<Rightarrow> psys \<Rightarrow> psys option" where
  "start_more i s =
     (case grow (nat (max_thr_num (mem s))) 0 0 (Suc (length (actors s))) (mem s) of
        Inr p \<Rightarrow>
          Some (goto i (M M_GUnlock)
            (s\<lparr>mem := p, actors := actors s @
                replicate (nat (live_thr_num p - live_thr_num (mem s))) (new_actor (W W_Head) [])\<rparr>))
      | Inl (Undef u) \<Rightarrow> Some (crash u s)
      | Inl _ \<Rightarrow> None)"

definition manager_step :: "nat \<Rightarrow> nat \<Rightarrow> mpc \<Rightarrow> actor \<Rightarrow> psys \<Rightarrow> psys option" where
  "manager_step i j m a s =
     (let p = mem s in
      case m of
        M_Head \<Rightarrow> Some (goto i (if shutdown p then M M_Gone else M M_Lock) s)
      | M_Lock \<Rightarrow> lock_pool i (M M_Read1) s
      | M_Read1 \<Rightarrow> Some (goto i (M M_Read2) (upd i (\<lambda>a. a\<lparr>l_qs := queue_size p\<rparr>) s))
      | M_Read2 \<Rightarrow> Some (goto i (M M_Unlock) (upd i (\<lambda>a. a\<lparr>l_live := live_thr_num p\<rparr>) s))
      | M_Unlock \<Rightarrow> unlock_pool i (M M_CLock) s
      | M_CLock \<Rightarrow> lock_counter i (M M_Busy) s
      | M_Busy \<Rightarrow> Some (goto i (M M_CUnlock) (upd i (\<lambda>a. a\<lparr>l_busy := busy_thr_num p\<rparr>) s))
      | M_CUnlock \<Rightarrow> unlock_counter i (M M_Grow) s
      | M_Grow \<Rightarrow>
          Some (goto i (if MIN_WAIT_TSK_NUM \<le> l_qs a \<and> l_live a < max_thr_num p then M M_GLock else M M_Shrink) s)
      | M_GLock \<Rightarrow> lock_pool i (M M_Start) s
      | M_Start \<Rightarrow> start_more i s
      | M_GUnlock \<Rightarrow> unlock_pool i (M M_Shrink) s
      | M_Shrink \<Rightarrow>
          Some (goto i (if l_busy a * 2 < l_live a \<and> min_thr_num p < l_live a then M M_ELock else M M_Head) s)
      | M_ELock \<Rightarrow> lock_pool i (M M_Exit) s
      | M_Exit \<Rightarrow> on_mem i (\<lambda>p. p\<lparr>wait_exit_thr_num := DEFAULT_THREAD_VARY\<rparr>) (M M_EUnlock) s
      | M_EUnlock \<Rightarrow> unlock_pool i (M M_Signal) (upd i (\<lambda>a. a\<lparr>l_n := 0\<rparr>) s)
      | M_Signal \<Rightarrow>
          if int (l_n a) < DEFAULT_THREAD_VARY
          then wake_one j (W W_Sleep) (W W_Wake) (upd i (\<lambda>a. a\<lparr>l_n := l_n a + 1\<rparr>) s)
          else Some (goto i (M M_Head) s)
      | _ \<Rightarrow> None)"

section \<open>Callers\<close>

definition write_slot :: "nat \<Rightarrow> (task \<Rightarrow> task) \<Rightarrow> pc \<Rightarrow> psys \<Rightarrow> psys option" where
  "write_slot i f p s = at_slot (queue_rear (mem s)) s (\<lambda>n.
     on_mem i (\<lambda>q. q\<lparr>task_queue := (task_queue q)[n := f (task_queue q ! n)]\<rparr>) p s)"

definition add_step :: "nat \<Rightarrow> nat \<Rightarrow> apc \<Rightarrow> actor \<Rightarrow> psys \<Rightarrow> psys option" where
  "add_step i j q a s =
     (let p = mem s in
      case q of
        A_Lock \<Rightarrow> lock_pool i (A A_Head) s
      | A_Head \<Rightarrow>
          Some (goto i (if queue_size p = queue_max_size p \<and> \<not> shutdown p then A A_CondWait else A A_Shut) s)
      | A_CondWait \<Rightarrow> cond_wait i (A A_Sleep) s
      | A_Wake \<Rightarrow> lock_pool i (A A_Head) s
      | A_Shut \<Rightarrow> Some (goto i (if shutdown p then A A_SBcast else A A_Clear) s)
      | A_SBcast \<Rightarrow> Some (goto i (A A_SUnlock) (wake_all (W W_Sleep) (W W_Wake) s))
      | A_SUnlock \<Rightarrow> unlock_pool i Idle s
      | A_Clear \<Rightarrow> write_slot i (\<lambda>t. if t_arg t \<noteq> 0 then t\<lparr>t_arg := 0\<rparr> else t) (A A_Fn) s
      | A_Fn \<Rightarrow> write_slot i (\<lambda>t. t\<lparr>t_function := l_fn a\<rparr>) (A A_Arg) s
      | A_Arg \<Rightarrow> write_slot i (\<lambda>t. t\<lparr>t_arg := l_arg a\<rparr>) (A A_Rear) s
      | A_Rear \<Rightarrow> wrap_next (queue_rear p) s (\<lambda>r. on_mem i (\<lambda>p. p\<lparr>queue_rear := r\<rparr>) (A A_Size) s)
      | A_Size \<Rightarrow> on_mem i (\<lambda>p. p\<lparr>queue_size := queue_size p + 1\<rparr>) (A A_Signal) s
      | A_Signal \<Rightarrow> wake_one j (W W_Sleep) (W W_Wake) (goto i (A A_Unlock) s)
      | A_Unlock \<Rightarrow> unlock_pool i Idle s
      | _ \<Rightarrow> None)"

text \<open>
  Joining the threads of the pool: the identifier's thread has to be gone, and by then it has
  detached itself.
\<close>

definition join_next :: "nat \<Rightarrow> actor \<Rightarrow> psys \<Rightarrow> psys option" where
  "join_next i a s =
     (if \<not> l_n a < length (threads (mem s)) then Some (crash OutOfBounds s)
      else let tid = threads (mem s) ! l_n a in
           if tid = 0 \<or> at_pc (W W_Gone) (tid - 1) s then Some (crash NotJoinable s) else None)"

definition destroy_step :: "nat \<Rightarrow> dpc \<Rightarrow> actor \<Rightarrow> psys \<Rightarrow> psys option" where
  "destroy_step i d a s =
     (case d of
        D_Set \<Rightarrow> on_mem i (\<lambda>p. p\<lparr>shutdown := True\<rparr>) (D D_JoinM) s
      | D_JoinM \<Rightarrow>
          if at_pc (M M_Gone) (adjust_tid (mem s) - 1) s
          then Some (goto i (D D_Bcast) (upd i (\<lambda>a. a\<lparr>l_n := 0\<rparr>) s)) else None
      | D_Bcast \<Rightarrow>
          if int (l_n a) < live_thr_num (mem s)
          then Some (upd i (\<lambda>a. a\<lparr>l_n := l_n a + 1\<rparr>) (wake_all (W W_Sleep) (W W_Wake) s))
          else Some (goto i (D D_JoinW) (upd i (\<lambda>a. a\<lparr>l_n := 0\<rparr>) s))
      | D_JoinW \<Rightarrow> if int (l_n a) < live_thr_num (mem s) then join_next i a s else Some (goto i (D D_Free) s)
      | D_Free \<Rightarrow>
          (case threadpool_free i (Some \<lparr>m_task_queue = Block, m_threads = Block, m_lock = lock_m s,
                  m_counter = counter_m s\<rparr>) of
             Inl (Undef u) \<Rightarrow> Some (crash u s) | Inl _ \<Rightarrow> None | Inr r \<Rightarrow> Some (goto i Idle s)))"

definition caller_step :: "nat \<Rightarrow> actor \<Rightarrow> psys \<Rightarrow> psys option" where
  "caller_step i a s =
     (case todo a of
        [] \<Rightarrow> None
      | Add f x # ops \<Rightarrow> Some (goto i (A A_Lock) (upd i (\<lambda>a. a\<lparr>l_fn := f, l_arg := x, todo := ops\<rparr>) s))
      | Destroy # ops \<Rightarrow> Some (goto i (D D_Set) (upd i (\<lambda>a. a\<lparr>todo := ops\<rparr>) s)))"

section \<open>Steps and runs\<close>

text \<open>
  Thread \<open>i\<close> runs its next statement; \<open>j\<close> is the thread a signal wakes.
  \<open>None\<close>: it has to wait, or has ended, or the run has.
\<close>

definition tstep :: "nat \<Rightarrow> nat \<Rightarrow> psys \<Rightarrow> psys option" where
  "tstep i j s =
     (if fault s \<noteq> None \<or> \<not> i < length (actors s) then None
      else let a = actors s ! i in
           case pc a of
             W w \<Rightarrow> worker_step i w a s
           | M m \<Rightarrow> manager_step i j m a s
           | A q \<Rightarrow> add_step i j q a s
           | D d \<Rightarrow> destroy_step i d a s
           | Idle \<Rightarrow> caller_step i a s)"

text \<open>A thread waiting on a condition may also wake without a signal.\<close>

definition spurious :: "nat \<Rightarrow> psys \<Rightarrow> psys option" where
  "spurious i s =
     (if fault s = None \<and> at_pc (W W_Sleep) i s then Some (goto i (W W_Wake) s)
      else if fault s = None \<and> at_pc (A A_Sleep) i s then Some (goto i (A A_Wake) s)
      else None)"

inductive psteps :: "psys \<Rightarrow> psys \<Rightarrow> bool" where
  start: "psteps s s"
| step: "psteps s s' \<Longrightarrow> tstep i j s' = Some s'' \<Longrightarrow> psteps s s''"
| awake: "psteps s s' \<Longrightarrow> spurious i s' = Some s'' \<Longrightarrow> psteps s s''"

fun run :: "(nat \<times> nat) list \<Rightarrow> psys \<Rightarrow> psys option" where
  "run [] s = Some s"
| "run ((i, j) # sched) s = (case tstep i j s of None \<Rightarrow> None | Some s' \<Rightarrow> run sched s')"

lemma psteps_trans: "psteps s' s'' \<Longrightarrow> psteps s s' \<Longrightarrow> psteps s s''"
  by (induction rule: psteps.induct) (auto intro: psteps.intros)

lemma run_psteps: "run sched s = Some s' \<Longrightarrow> psteps s s'"
proof (induction sched s rule: run.induct)
  case (2 i j sched s)
  then obtain s1 where "tstep i j s = Some s1" "psteps s1 s'"
    by (auto split: option.splits)
  with psteps_trans[OF this(2) psteps.step[OF psteps.start this(1)]] show ?case by simp
qed (simp add: psteps.start)

text \<open>
  The state when \<^verbatim>\<open>threadpool_create\<close> returns: the workers and the manager
  stand at their first statement, both mutexes are free, and callers are about to call.
\<close>

definition start_state :: "pool \<Rightarrow> nat \<Rightarrow> pool_op list list \<Rightarrow> psys" where
  "start_state p n callers =
     \<lparr>mem = p, lock_m = Unlocked, counter_m = Unlocked,
      actors = replicate n (new_actor (W W_Head) []) @ new_actor (M M_Head) [] # map (new_actor Idle) callers,
      executed = [], fault = None\<rparr>"

end
