(* ===== verification/Pool_Inv.thy ===== *)
theory Pool_Inv
  imports Pool_Threads
begin

text \<open>
  What every interleaving of the pool's threads keeps: the lock is held by exactly the thread
  whose program counter says so, and no worker gets past the release of the lock, because it
  never acquired it.
\<close>

section \<open>Program counters after a statement\<close>

definition pcs :: "psys \<Rightarrow> pc list" where
  "pcs s = map pc (actors s)"

definition same_pc :: "(actor \<Rightarrow> actor) \<Rightarrow> bool" where
  "same_pc f \<longleftrightarrow> (\<forall>a. pc (f a) = pc a)"

lemma pcs_upd [simp]: "same_pc f \<Longrightarrow> pcs (upd i f s) = pcs s"
  by (cases "i < length (actors s)")
    (auto simp: pcs_def upd_def same_pc_def map_update list_update_same_conv list_update_beyond)

lemma pcs_goto [simp]: "pcs (goto i p s) = (pcs s)[i := p]"
  by (simp add: pcs_def goto_def upd_def map_update)

lemma pcs_frame [simp]:
  "pcs (s\<lparr>mem := p\<rparr>) = pcs s" "pcs (s\<lparr>lock_m := m\<rparr>) = pcs s" "pcs (s\<lparr>counter_m := m\<rparr>) = pcs s"
  "pcs (s\<lparr>executed := e\<rparr>) = pcs s" "pcs (crash u s) = pcs s"
  by (simp_all add: pcs_def crash_def)

lemma pcs_wake_all: "pcs (wake_all p q s) = map (\<lambda>x. if x = p then q else x) (pcs s)"
  by (simp add: pcs_def wake_all_def)

lemma step_frame [simp]:
  "mem (goto i p s) = mem s" "lock_m (goto i p s) = lock_m s" "executed (goto i p s) = executed s"
  "counter_m (goto i p s) = counter_m s" "fault (goto i p s) = fault s"
  "mem (upd i f s) = mem s" "lock_m (upd i f s) = lock_m s" "executed (upd i f s) = executed s"
  "counter_m (upd i f s) = counter_m s" "fault (upd i f s) = fault s"
  "mem (crash u s) = mem s" "lock_m (crash u s) = lock_m s" "executed (crash u s) = executed s"
  "mem (wake_all p q s) = mem s" "lock_m (wake_all p q s) = lock_m s"
  "executed (wake_all p q s) = executed s" "fault (wake_all p q s) = fault s"
  by (simp_all add: goto_def upd_def crash_def wake_all_def)

lemma same_pc_fields [simp]:
  "same_pc (\<lambda>a. a\<lparr>l_fn := f a\<rparr>)" "same_pc (\<lambda>a. a\<lparr>l_arg := f a\<rparr>)" "same_pc (\<lambda>a. a\<lparr>l_qs := g a\<rparr>)"
  "same_pc (\<lambda>a. a\<lparr>l_live := g a\<rparr>)" "same_pc (\<lambda>a. a\<lparr>l_busy := g a\<rparr>)" "same_pc (\<lambda>a. a\<lparr>l_n := f a\<rparr>)"
  "same_pc (\<lambda>a. a\<lparr>todo := t a\<rparr>)" "same_pc (\<lambda>a. a\<lparr>l_fn := f a, l_arg := f' a, todo := t a\<rparr>)"
  by (simp_all add: same_pc_def)

section \<open>The lock's invariant\<close>

text \<open>
  Where a thread holds the lock (a worker that takes a task out does not: nothing locks there), and the program counters
  no worker ever reaches.
\<close>

definition holds :: "pc \<Rightarrow> bool" where
  "holds p =
     (case p of
        W w \<Rightarrow> w = W_Detach \<or> w = W_Gone
      | M m \<Rightarrow> m = M_Read1 \<or> m = M_Read2 \<or> m = M_Unlock \<or> m = M_Start \<or> m = M_GUnlock \<or> m = M_Exit
          \<or> m = M_EUnlock
      | A q \<Rightarrow> q \<noteq> A_Lock \<and> q \<noteq> A_Sleep \<and> q \<noteq> A_Wake
      | _ \<Rightarrow> False)"

definition never :: "pc \<Rightarrow> bool" where
  "never p =
     (case p of
        W w \<Rightarrow> w \<notin> {W_Head, W_CondWait, W_Shut, W_ShutLock, W_Detach, W_Gone, W_TakeF, W_TakeA,
          W_Front, W_Size, W_Bcast, W_Unlock}
      | _ \<Rightarrow> False)"

definition owned :: "mutex \<Rightarrow> pc list \<Rightarrow> bool" where
  "owned m ps \<longleftrightarrow> m \<noteq> Raw \<and> (\<forall>i. m = Locked i \<longrightarrow> i < length ps) \<and>
     (\<forall>i < length ps. (holds (ps ! i) \<longleftrightarrow> m = Locked i) \<and> \<not> never (ps ! i))"

lemma owned_keep:
  assumes "owned m ps" and "i < length ps" and "holds p = holds (ps ! i)" and "\<not> never p"
  shows "owned m (ps[i := p])"
  using assms by (simp add: owned_def nth_list_update)

lemma owned_acquire:
  assumes "owned m ps" and "mutex_lock i m = Inr m'" and "i < length ps" and "holds p" "\<not> never p"
  shows "owned m' (ps[i := p])"
  using assms by (cases m) (auto simp: owned_def nth_list_update mutex_lock_def)

lemma owned_release:
  assumes "owned m ps" and "mutex_unlock i m = Inr m'" and "\<not> holds p" and "\<not> never p"
  shows "owned m' (ps[i := p])"
  using assms by (auto simp: owned_def nth_list_update mutex_unlock_def split: if_splits)

lemma owned_wake_all:
  assumes "owned m ps" and "holds p = holds q" and "never p = never q"
  shows "owned m (map (\<lambda>x. if x = p then q else x) ps)"
  using assms unfolding owned_def by (simp add: if_distrib[of holds] if_distrib[of never]) metis

lemma owned_more: "owned m ps \<Longrightarrow> owned m (ps @ replicate n (W W_Head))"
  unfolding owned_def by (auto simp: nth_append holds_def never_def)

definition thread_inv :: "psys \<Rightarrow> bool" where
  "thread_inv s \<longleftrightarrow> owned (lock_m s) (pcs s) \<and> executed s = []"

section \<open>Every statement keeps it\<close>

lemma inv_crash [simp]: "thread_inv (crash u s) = thread_inv s"
  by (simp add: thread_inv_def)

lemma inv_mem [simp]: "thread_inv (s\<lparr>mem := p\<rparr>) = thread_inv s"
  by (simp add: thread_inv_def)

lemma inv_counter [simp]: "thread_inv (s\<lparr>counter_m := m\<rparr>) = thread_inv s"
  by (simp add: thread_inv_def)

lemma inv_upd [simp]: "same_pc f \<Longrightarrow> thread_inv (upd i f s) = thread_inv s"
  by (simp add: thread_inv_def)

lemma inv_goto:
  assumes "thread_inv s" and "i < length (pcs s)" and "holds p = holds (pcs s ! i)" and "\<not> never p"
  shows "thread_inv (goto i p s)"
  using assms owned_keep by (simp add: thread_inv_def)

lemma result_Some:
  "result f s x = Some s' \<Longrightarrow> (\<exists>m. x = Inr m \<and> s' = f m) \<or> (\<exists>u. s' = crash u s)"
  by (auto simp: result_def split: sum.splits stop.splits)

lemma inv_lock_pool:
  assumes "lock_pool i p s = Some s'" and "thread_inv s" and "i < length (pcs s)" and "holds p" "\<not> never p"
  shows "thread_inv s'"
  using result_Some[OF assms(1)[unfolded lock_pool_def]] assms(2-) owned_acquire
  by (auto simp: thread_inv_def)

lemma inv_unlock_pool:
  assumes "unlock_pool i p s = Some s'" and "thread_inv s" and "i < length (pcs s)"
    and "holds (pcs s ! i) \<longrightarrow> \<not> holds p \<and> \<not> never p"
  shows "thread_inv s'"
proof (cases "lock_m s = Locked i")
  case True
  then have "holds (pcs s ! i)" using assms(2,3) by (simp add: thread_inv_def owned_def)
  then show ?thesis
    using assms True owned_release[of "lock_m s" "pcs s" i Unlocked p]
    by (auto simp: unlock_pool_def result_def thread_inv_def mutex_unlock_def)
next
  case False
  then show ?thesis using assms by (auto simp: unlock_pool_def result_def mutex_unlock_def)
qed

lemma inv_cond_wait:
  assumes "cond_wait i p s = Some s'" and "thread_inv s" and "i < length (pcs s)"
    and "holds (pcs s ! i) \<longrightarrow> \<not> holds p \<and> \<not> never p"
  shows "thread_inv s'"
proof (cases "lock_m s = Locked i")
  case True
  then have "holds (pcs s ! i)" using assms(2,3) by (simp add: thread_inv_def owned_def)
  then show ?thesis
    using assms True owned_release[of "lock_m s" "pcs s" i Unlocked p]
    by (auto simp: cond_wait_def thread_inv_def mutex_unlock_def)
next
  case False
  then show ?thesis using assms by (auto simp: cond_wait_def)
qed

lemma inv_lock_counter:
  assumes "lock_counter i p s = Some s'" and "thread_inv s"
    and "i < length (pcs s)" and "holds p = holds (pcs s ! i)" and "\<not> never p"
  shows "thread_inv s'"
  using assms by (auto simp: lock_counter_def intro!: inv_goto dest!: result_Some)

lemma inv_unlock_counter:
  assumes "unlock_counter i p s = Some s'" and "thread_inv s"
    and "i < length (pcs s)" and "holds p = holds (pcs s ! i)" and "\<not> never p"
  shows "thread_inv s'"
  using assms by (auto simp: unlock_counter_def intro!: inv_goto dest!: result_Some)

lemma inv_wake_all:
  "thread_inv s \<Longrightarrow> holds p = holds q \<Longrightarrow> never p = never q \<Longrightarrow> thread_inv (wake_all p q s)"
  using owned_wake_all by (simp add: thread_inv_def pcs_wake_all)

lemma at_pc_pcs: "at_pc p i s \<longleftrightarrow> i < length (pcs s) \<and> pcs s ! i = p"
  by (auto simp: at_pc_def pcs_def)

lemma inv_wake_sleeper:
  assumes "wake_one j (W W_Sleep) q s = Some s'" and "thread_inv s"
  shows "thread_inv s'"
  using assms by (auto simp: wake_one_def at_pc_pcs thread_inv_def owned_def never_def split: if_splits)

lemmas pc_class = holds_def never_def

lemma worker_inv:
  assumes "worker_step i w a s = Some s'" and "thread_inv s" and "i < length (pcs s)" and "pcs s ! i = W w"
  shows "thread_inv s'"
proof -
  have "\<not> never (W w)" using assms(2-4) by (auto simp: thread_inv_def owned_def)
  then show ?thesis
    using assms
    by (cases w)
      (auto simp: worker_step_def Let_def pc_class on_mem_def at_slot_def wrap_next_def pcs_wake_all
        intro!: inv_goto inv_wake_all split: if_splits
        elim!: inv_lock_pool inv_unlock_pool inv_cond_wait)
qed

lemma add_inv:
  assumes "add_step i j q a s = Some s'" and "thread_inv s" and "i < length (pcs s)" and "pcs s ! i = A q"
  shows "thread_inv s'"
  using assms
  by (cases q)
    (auto simp: add_step_def Let_def pc_class on_mem_def write_slot_def at_slot_def wrap_next_def
        pcs_wake_all
      intro!: inv_goto inv_wake_all split: if_splits
      elim!: inv_lock_pool inv_unlock_pool inv_cond_wait inv_wake_sleeper)

lemma inv_start_more:
  assumes "start_more i s = Some s'" and "thread_inv s" and "i < length (pcs s)" and "pcs s ! i = M M_Start"
  shows "thread_inv s'"
proof -
  have more: "thread_inv (s\<lparr>mem := p, actors := actors s @ replicate n (new_actor (W W_Head) [])\<rparr>)" for p n
    using assms(2) owned_more by (simp add: thread_inv_def pcs_def new_actor_def)
  show ?thesis
    using assms more
    by (auto simp: start_more_def pc_class split: sum.splits stop.splits intro!: inv_goto)
      (simp_all add: pcs_def nth_append)
qed

lemma manager_inv:
  assumes "manager_step i j m a s = Some s'" and "thread_inv s" and "i < length (pcs s)" and "pcs s ! i = M m"
  shows "thread_inv s'"
  using assms
  by (cases m)
    (auto simp: manager_step_def Let_def pc_class on_mem_def intro!: inv_goto split: if_splits
      elim!: inv_lock_pool inv_unlock_pool inv_lock_counter inv_unlock_counter inv_wake_sleeper inv_start_more)

lemma destroy_inv:
  assumes "destroy_step i d a s = Some s'" and "thread_inv s" and "i < length (pcs s)" and "pcs s ! i = D d"
  shows "thread_inv s'"
  using assms
  by (cases d)
    (auto simp: destroy_step_def join_next_def Let_def pc_class on_mem_def
      intro!: inv_goto inv_wake_all split: if_splits sum.splits stop.splits)

lemma caller_inv:
  assumes "caller_step i a s = Some s'" and "thread_inv s" and "i < length (pcs s)" and "pcs s ! i = Idle"
  shows "thread_inv s'"
  using assms by (auto simp: caller_step_def pc_class intro!: inv_goto split: list.splits pool_op.splits)

lemma tstep_inv: "tstep i j s = Some s' \<Longrightarrow> thread_inv s \<Longrightarrow> thread_inv s'"
  by (auto simp: tstep_def Let_def pcs_def split: if_splits pc.splits
      elim!: worker_inv manager_inv add_inv destroy_inv caller_inv)

lemma spurious_inv:
  assumes "spurious i s = Some s'" and "thread_inv s"
  shows "thread_inv s'"
proof -
  have "\<not> at_pc (W W_Sleep) i s"
    using assms(2) by (auto simp: at_pc_pcs thread_inv_def owned_def never_def)
  then have "at_pc (A A_Sleep) i s" "s' = goto i (A A_Wake) s"
    using assms(1) by (auto simp: spurious_def split: if_splits)
  then show ?thesis
    using assms(2) by (auto simp: at_pc_pcs pc_class intro!: inv_goto)
qed

lemma psteps_inv: "psteps s s' \<Longrightarrow> thread_inv s \<Longrightarrow> thread_inv s'"
  by (induction rule: psteps.induct) (auto intro: tstep_inv spurious_inv)

lemma start_inv: "thread_inv (start_state p n ops)"
  by (auto simp: start_state_def thread_inv_def owned_def pcs_def new_actor_def pc_class nth_append nth_Cons
      split: nat.splits)

section \<open>A lock that is never released\<close>

text \<open>
  A worker that has ended while it held the lock keeps it: no other thread can release it.
\<close>

definition left_locked :: "nat \<Rightarrow> psys \<Rightarrow> bool" where
  "left_locked i s \<longleftrightarrow> lock_m s = Locked i \<and> at_pc (W W_Gone) i s"

lemma left_locked_frame [simp]:
  "left_locked i (crash u s) = left_locked i s" "left_locked i (s\<lparr>mem := p\<rparr>) = left_locked i s"
  "left_locked i (s\<lparr>counter_m := m\<rparr>) = left_locked i s" "left_locked i (s\<lparr>executed := e\<rparr>) = left_locked i s"
  "same_pc f \<Longrightarrow> left_locked i (upd k f s) = left_locked i s"
  "x \<noteq> W W_Gone \<Longrightarrow> y \<noteq> W W_Gone \<Longrightarrow> left_locked i (wake_all x y s) = left_locked i s"
  by (auto simp: left_locked_def at_pc_pcs pcs_wake_all split: if_splits)

lemma left_locked_goto [intro]: "left_locked i s \<Longrightarrow> k \<noteq> i \<Longrightarrow> left_locked i (goto k p s)"
  by (auto simp: left_locked_def at_pc_pcs)

lemma left_locked_pool:
  "left_locked i s \<Longrightarrow> lock_pool k p s \<noteq> Some s'"
  "left_locked i s \<Longrightarrow> k \<noteq> i \<Longrightarrow> unlock_pool k p s = Some s' \<Longrightarrow> left_locked i s'"
  "left_locked i s \<Longrightarrow> k \<noteq> i \<Longrightarrow> cond_wait k p s = Some s' \<Longrightarrow> left_locked i s'"
  "left_locked i s \<Longrightarrow> k \<noteq> i \<Longrightarrow> lock_counter k p s = Some s' \<Longrightarrow> left_locked i s'"
  "left_locked i s \<Longrightarrow> k \<noteq> i \<Longrightarrow> unlock_counter k p s = Some s' \<Longrightarrow> left_locked i s'"
  "left_locked i s \<Longrightarrow> wake_one j (W W_Sleep) q s = Some s' \<Longrightarrow> left_locked i s'"
  by (auto simp: lock_pool_def unlock_pool_def cond_wait_def lock_counter_def unlock_counter_def
      wake_one_def mutex_lock_def mutex_unlock_def result_def left_locked_def at_pc_pcs
      nth_list_update split: if_splits sum.splits stop.splits mutex.splits)

lemma left_locked_start_more:
  assumes "start_more k s = Some s'" and "left_locked i s" and "k \<noteq> i"
  shows "left_locked i s'"
proof -
  have "left_locked i (s\<lparr>mem := p, actors := actors s @ al\<rparr>)" for p al
    using assms(2) by (auto simp: left_locked_def at_pc_def nth_append)
  then show ?thesis
    using assms by (auto simp: start_more_def split: sum.splits stop.splits)
qed

lemmas step_defs = worker_step_def manager_step_def add_step_def destroy_step_def caller_step_def
  join_next_def on_mem_def at_slot_def wrap_next_def write_slot_def Let_def

lemma tstep_left_locked:
  assumes "tstep k j s = Some s'" and "left_locked i s"
  shows "left_locked i s'"
proof -
  have k: "k \<noteq> i"
    using assms by (auto simp: tstep_def left_locked_def at_pc_def worker_step_def Let_def split: if_splits)
  have pool: "left_locked i s0 \<Longrightarrow> lock_pool k p s0 = None" for s0 p
    using left_locked_pool(1) by (metis not_Some_eq)
  note rules = left_locked_pool(2-5)[OF _ k] left_locked_pool(6) left_locked_start_more
  show ?thesis
  proof (cases "pc (actors s ! k)")
    case (W w)
    with assms k show ?thesis
      by (cases w) (auto simp: tstep_def step_defs pool split: if_splits elim: rules)
  next
    case (M m)
    have u: "unlock_pool k p (upd k (\<lambda>a. a\<lparr>l_n := g a\<rparr>) s) = Some s' \<Longrightarrow> left_locked i s'"
      "wake_one j (W W_Sleep) p (upd k (\<lambda>a. a\<lparr>l_n := g a\<rparr>) s) = Some s' \<Longrightarrow> left_locked i s'" for g p
      using rules(1,5)[where s = "upd k (\<lambda>a. a\<lparr>l_n := g a\<rparr>) s"] assms(2) by auto
    with assms k M show ?thesis
      by (cases m) (auto simp: tstep_def step_defs pool split: if_splits elim: rules u)
  next
    case (A q)
    have "wake_one j (W W_Sleep) p (goto k p' s) = Some s' \<Longrightarrow> left_locked i s'" for p p'
      using rules(5)[where s = "goto k p' s"] left_locked_goto[OF assms(2) k] by auto
    with assms k A show ?thesis
      by (cases q) (auto simp: tstep_def step_defs pool split: if_splits elim: rules)
  next
    case (D d)
    with assms k show ?thesis
      by (cases d) (auto simp: tstep_def step_defs split: if_splits sum.splits stop.splits)
  next
    case Idle
    with assms k show ?thesis
      by (auto simp: tstep_def step_defs split: if_splits list.splits pool_op.splits)
  qed
qed

lemma psteps_left_locked:
  assumes "psteps s s'" and "left_locked i s"
  shows "left_locked i s'"
  using assms
proof (induction rule: psteps.induct)
  case (awake s s' k s'')
  then show ?case
    by (auto simp: spurious_def at_pc_pcs left_locked_def nth_list_update
      split: if_splits)
qed (auto intro: tstep_left_locked)

end
