(* ===== verification/Pool_Adds.thy ===== *)
theory Pool_Adds
  imports Pool_Inv
begin

text \<open>
  \<^verbatim>\<open>threadpool_add\<close> called by any number of threads at once, while no worker and
  no manager runs: the statements between its locking and unlocking refine one append to the
  queue, which takes effect where the count is increased (line 322).
\<close>

section \<open>The statements between lock and unlock\<close>

definition task_of :: "actor \<Rightarrow> task" where
  "task_of a = \<lparr>t_function = l_fn a, t_arg = l_arg a\<rparr>"

definition counted :: "pool \<Rightarrow> pool" where
  "counted p = p\<lparr>queue_size := queue_size p + 1\<rparr>"

text \<open>Writing at the rear of a queue with room changes none of its tasks.\<close>

lemma write_rear:
  assumes "queue_ok p" and "queue_size p < queue_max_size p"
  shows "queue_ok (p\<lparr>task_queue := (task_queue p)[nat (queue_rear p) := t]\<rparr>)"
    and "queue_tasks (p\<lparr>task_queue := (task_queue p)[nat (queue_rear p) := t]\<rparr>) = queue_tasks p"
    and "nat (queue_rear p) < length (task_queue p)" and "0 \<le> queue_rear p"
proof -
  from assms(1) obtain n f s where
    l: "length (task_queue p) = n" "queue_max_size p = int n" "0 < n" "queue_front p = int f" "f < n"
    "queue_size p = int s" "s \<le> n" "queue_rear p = int ((f + s) mod n)"
    by (rule queue_okE)
  then have s: "s < n" using assms(2) by simp
  show "queue_ok (p\<lparr>task_queue := (task_queue p)[nat (queue_rear p) := t]\<rparr>)"
    using assms(1) by (simp add: queue_ok_def)
  show "queue_tasks (p\<lparr>task_queue := (task_queue p)[nat (queue_rear p) := t]\<rparr>) = queue_tasks p"
    using not_sym[OF slot_fresh[OF l(5) _ s]] l by (auto simp: queue_tasks_def slot_def)
  show "nat (queue_rear p) < length (task_queue p)" "0 \<le> queue_rear p"
    using l by simp_all
qed

lemma next_rear:
  assumes "queue_ok p" and "queue_size p < queue_max_size p"
  defines "p' \<equiv> p\<lparr>queue_rear := (queue_rear p + 1) smod queue_max_size p\<rparr>"
  shows "queue_ok (counted p')" and "queue_tasks (counted p') = queue_tasks p @ [task_queue p ! nat (queue_rear p)]"
    and "queue_tasks p' = queue_tasks p"
proof -
  let ?t = "task_queue p ! nat (queue_rear p)"
  have "length (queue_tasks p) < queue_room p"
    using assms(1,2) by (auto simp: queue_tasks_def queue_room_def queue_ok_def)
  from put_law[OF assms(1) this, of ?t] obtain q where
    q: "put ?t p = Inr q" "queue_ok q" "queue_tasks q = queue_tasks p @ [?t]" by blast
  have "in_array (queue_rear p) (task_queue p)" "queue_max_size p \<noteq> 0"
    using write_rear[OF assms(1,2)] assms(1) by (auto simp: in_array_def queue_ok_def)
  then have "q = counted p'"
    using q(1) by (simp add: put_def put_task_def Let_def p'_def counted_def split: if_splits)
  then show "queue_ok (counted p')" "queue_tasks (counted p') = queue_tasks p @ [?t]"
    using q by simp_all
  show "queue_tasks p' = queue_tasks p" by (simp add: queue_tasks_def slot_def p'_def)
qed

text \<open>What the thread that holds the lock knows of the pool, by its program counter.\<close>

definition add_shape :: "apc \<Rightarrow> actor \<Rightarrow> pool \<Rightarrow> bool" where
  "add_shape q a p =
     (let room = queue_size p < queue_max_size p; t = task_queue p ! nat (queue_rear p) in
      case q of
        A_Shut \<Rightarrow> queue_ok p \<and> (room \<or> shutdown p)
      | A_Clear \<Rightarrow> queue_ok p \<and> room
      | A_Fn \<Rightarrow> queue_ok p \<and> room
      | A_Arg \<Rightarrow> queue_ok p \<and> room \<and> t_function t = l_fn a
      | A_Rear \<Rightarrow> queue_ok p \<and> room \<and> t = task_of a
      | A_Size \<Rightarrow> queue_ok (counted p) \<and> queue_tasks (counted p) = queue_tasks p @ [task_of a]
      | _ \<Rightarrow> queue_ok p)"

definition caller_pc :: "pc \<Rightarrow> bool" where
  "caller_pc p = (case p of A q \<Rightarrow> True | D d \<Rightarrow> d = D_Set \<or> d = D_JoinM | Idle \<Rightarrow> True | _ \<Rightarrow> False)"

definition adds_inv :: "psys \<Rightarrow> bool" where
  "adds_inv s \<longleftrightarrow> fault s = None \<and> owned (lock_m s) (pcs s) \<and> (\<forall>a \<in> set (actors s). caller_pc (pc a)) \<and>
     (case lock_m s of
        Locked i \<Rightarrow> (case pc (actors s ! i) of A q \<Rightarrow> add_shape q (actors s ! i) (mem s) | _ \<Rightarrow> False)
      | _ \<Rightarrow> queue_ok (mem s))"

section \<open>One step\<close>

lemma adds_invD:
  assumes "adds_inv s" and "i < length (actors s)" and "pc (actors s ! i) = A q"
  shows "holds (A q) \<Longrightarrow> lock_m s = Locked i \<and> add_shape q (actors s ! i) (mem s)"
    and "\<not> holds (A q) \<Longrightarrow> lock_m s \<noteq> Locked i"
  using assms by (auto simp: adds_inv_def owned_def pcs_def)

lemma no_worker_wakes:
  assumes "adds_inv s"
  shows "wake_all (W x) y s = s" and "wake_one j (W x) y s = Some s"
proof -
  have "pc a \<noteq> W x" if "a \<in> set (actors s)" for a
    using assms that by (auto simp: adds_inv_def caller_pc_def)
  then show "wake_all (W x) y s = s" "wake_one j (W x) y s = Some s"
    by (auto simp: wake_all_def wake_one_def list_ex_iff map_idI)
qed

text \<open>A thread that does not hold the lock, and still does not, moves.\<close>

lemma adds_move:
  assumes "adds_inv s" and "i < length (actors s)" and "lock_m s \<noteq> Locked i"
    and "caller_pc p" and "\<not> holds p" and "same_pc f"
  shows "adds_inv (goto i p (upd i f s))"
proof -
  have nh: "\<not> holds (pcs s ! i)" using assms(1-3) by (auto simp: adds_inv_def owned_def pcs_def)
  have nv: "\<not> never p" using assms(4) by (auto simp: caller_pc_def never_def split: pc.splits)
  have "owned (lock_m s) ((pcs s)[i := p])"
    using assms(1,2,5) nh nv by (intro owned_keep) (auto simp: adds_inv_def pcs_def)
  moreover have "actors (goto i p (upd i f s)) ! k = actors s ! k" if "k \<noteq> i" for k
    using that by (simp add: goto_def upd_def)
  moreover have "\<forall>a \<in> set (actors (goto i p (upd i f s))). caller_pc (pc a)"
    using assms(1,4) by (auto simp: adds_inv_def goto_def upd_def dest!: subsetD[OF set_update_subset_insert])
  ultimately show ?thesis
    using assms(1,3,6) by (auto simp: adds_inv_def split: mutex.splits pc.splits)
qed

text \<open>The thread that holds the lock moves on, and still holds it.\<close>

lemma adds_owner:
  assumes "adds_inv s" and "lock_m s = Locked i" and "i < length (actors s)"
    and "add_shape q ((actors s ! i)\<lparr>pc := A q\<rparr>) p" and "holds (A q)"
  shows "adds_inv (goto i (A q) (s\<lparr>mem := p\<rparr>))"
proof -
  have "owned (lock_m s) ((pcs s)[i := A q])"
    using assms by (intro owned_keep) (auto simp: adds_inv_def owned_def never_def pcs_def)
  moreover have "\<forall>a \<in> set (actors (goto i (A q) s)). caller_pc (pc a)"
    using assms(1) by (auto simp: adds_inv_def goto_def upd_def caller_pc_def dest!: subsetD[OF set_update_subset_insert])
  moreover have "actors (goto i (A q) (s\<lparr>mem := p\<rparr>)) = actors (goto i (A q) s)"
    and "actors (goto i (A q) s) ! i = (actors s ! i)\<lparr>pc := A q\<rparr>"
    using assms(3) by (simp_all add: goto_def upd_def)
  ultimately show ?thesis
    using assms by (auto simp: adds_inv_def)
qed

lemma adds_acquire:
  assumes "adds_inv s" and "lock_pool i (A A_Head) s = Some s'" and "i < length (actors s)"
  shows "adds_inv s' \<and> mem s' = mem s"
proof -
  have "lock_m s = Unlocked" and s': "s' = goto i (A A_Head) (s\<lparr>lock_m := Locked i\<rparr>)"
    using assms by (auto simp: lock_pool_def result_def mutex_lock_def adds_inv_def owned_def split: mutex.splits)
  moreover have "owned (Locked i) ((pcs s)[i := A A_Head])"
    using assms(1,3) \<open>lock_m s = Unlocked\<close>
    by (intro owned_acquire[of Unlocked]) (auto simp: adds_inv_def mutex_lock_def pc_class pcs_def)
  moreover have "\<forall>a \<in> set (actors s'). caller_pc (pc a)" "actors s' ! i = (actors s ! i)\<lparr>pc := A A_Head\<rparr>"
    using assms(1,3) s'
    by (auto simp: adds_inv_def goto_def upd_def caller_pc_def dest!: subsetD[OF set_update_subset_insert])
  ultimately show ?thesis
    using assms(1) by (auto simp: adds_inv_def add_shape_def)
qed

lemma adds_release:
  assumes "adds_inv s" and "lock_m s = Locked i" and "i < length (actors s)" and "queue_ok (mem s)"
    and "caller_pc p" and "\<not> holds p"
  shows "adds_inv (goto i p (s\<lparr>lock_m := Unlocked\<rparr>))"
proof -
  have "\<not> never p" using assms(5) by (auto simp: caller_pc_def never_def split: pc.splits)
  then have "owned Unlocked ((pcs s)[i := p])"
    using assms by (intro owned_release[of "lock_m s"]) (auto simp: adds_inv_def mutex_unlock_def)
  moreover have "\<forall>a \<in> set (actors (goto i p s)). caller_pc (pc a)"
    using assms(1,5) by (auto simp: adds_inv_def goto_def upd_def dest!: subsetD[OF set_update_subset_insert])
  moreover have "actors (goto i p (s\<lparr>lock_m := Unlocked\<rparr>)) = actors (goto i p s)"
    by (simp add: goto_def upd_def)
  ultimately show ?thesis
    using assms by (auto simp: adds_inv_def)
qed

lemma adds_set_shutdown:
  assumes "adds_inv s"
  shows "adds_inv (s\<lparr>mem := (mem s)\<lparr>shutdown := True\<rparr>\<rparr>)" and "queue_tasks ((mem s)\<lparr>shutdown := True\<rparr>) = queue_tasks (mem s)"
proof -
  have t: "queue_tasks (p\<lparr>shutdown := True\<rparr>) = queue_tasks p" "queue_ok (p\<lparr>shutdown := True\<rparr>) = queue_ok p"
    "counted (p\<lparr>shutdown := True\<rparr>) = (counted p)\<lparr>shutdown := True\<rparr>" for p
    by (simp_all add: queue_tasks_def slot_def queue_ok_def counted_def)
  then have "add_shape q a p \<Longrightarrow> add_shape q a (p\<lparr>shutdown := True\<rparr>)" for q a p
    by (cases q) (auto simp: add_shape_def Let_def)
  then show "adds_inv (s\<lparr>mem := (mem s)\<lparr>shutdown := True\<rparr>\<rparr>)"
    using assms t by (auto simp: adds_inv_def split: mutex.splits pc.splits)
  show "queue_tasks ((mem s)\<lparr>shutdown := True\<rparr>) = queue_tasks (mem s)" by (rule t)
qed

text \<open>The task a thread's next statement adds to the queue, if any.\<close>

definition adds_now :: "nat \<Rightarrow> psys \<Rightarrow> task list" where
  "adds_now i s = (if at_pc (A A_Size) i s then [task_of (actors s ! i)] else [])"

lemma add_shape_ok: "add_shape q a p \<Longrightarrow> q \<noteq> A_Size \<Longrightarrow> queue_ok p"
  by (cases q) (auto simp: add_shape_def Let_def)

lemma write_slot_adds:
  assumes inv: "adds_inv s" and lk: "lock_m s = Locked i" and i: "i < length (actors s)"
    and ok: "queue_ok (mem s)" "queue_size (mem s) < queue_max_size (mem s)"
    and run: "write_slot i f (A q) s = Some s'" and h: "holds (A q)"
    and shape: "\<And>p. queue_ok p \<Longrightarrow> queue_size p < queue_max_size p \<Longrightarrow>
      task_queue p ! nat (queue_rear p) = f (task_queue (mem s) ! nat (queue_rear (mem s))) \<Longrightarrow>
      add_shape q ((actors s ! i)\<lparr>pc := A q\<rparr>) p"
  shows "adds_inv s' \<and> queue_tasks (mem s') = queue_tasks (mem s)"
proof -
  let ?r = "nat (queue_rear (mem s))" and ?t = "f (task_queue (mem s) ! nat (queue_rear (mem s)))"
  let ?p = "(mem s)\<lparr>task_queue := (task_queue (mem s))[?r := ?t]\<rparr>"
  note w = write_rear[OF ok]
  have s': "s' = goto i (A q) (s\<lparr>mem := ?p\<rparr>)"
    using run w(3,4) by (simp add: write_slot_def at_slot_def on_mem_def in_array_def split: if_splits)
  have "add_shape q ((actors s ! i)\<lparr>pc := A q\<rparr>) ?p"
    using w ok by (intro shape) simp_all
  from adds_owner[OF inv lk i this h] show ?thesis
    using w(2) by (simp add: s')
qed

lemma adds_quiet:
  assumes "adds_inv s" and "lock_m s = Locked i" and "i < length (actors s)"
    and "add_shape q ((actors s ! i)\<lparr>pc := A q\<rparr>) (mem s)" and "holds (A q)"
  shows "adds_inv (goto i (A q) s)"
  using adds_owner[OF assms(1-3), of q "mem s"] assms(4,5) by simp

lemma add_step_adds:
  assumes inv: "adds_inv s" and i: "i < length (actors s)" and pcq: "pc (actors s ! i) = A q"
    and run: "add_step i j q (actors s ! i) s = Some s'"
  shows "adds_inv s' \<and> queue_tasks (mem s') = queue_tasks (mem s) @ adds_now i s"
proof -
  note D = adds_invD[OF inv i pcq]
  note own = adds_quiet[OF inv _ i]
  have size: "adds_now i s = []" if "q \<noteq> A_Size" using that pcq by (simp add: adds_now_def at_pc_def)
  show ?thesis
  proof (cases q)
    case A_Lock
    with run adds_acquire[OF inv _ i] size show ?thesis by (auto simp: add_step_def Let_def)
  next
    case A_Wake
    with run adds_acquire[OF inv _ i] size show ?thesis by (auto simp: add_step_def Let_def)
  next
    case A_Sleep
    with run show ?thesis by (simp add: add_step_def)
  next
    case A_Head
    with D have "lock_m s = Locked i" "queue_ok (mem s)" by (auto simp: holds_def add_shape_def)
    with A_Head run own size show ?thesis
      by (auto simp: add_step_def Let_def add_shape_def holds_def queue_ok_def split: if_splits)
  next
    case A_CondWait
    with D have "lock_m s = Locked i" "queue_ok (mem s)" by (auto simp: holds_def add_shape_def)
    with adds_release[OF inv this(1) i this(2), of "A A_Sleep"] A_CondWait run size show ?thesis
      by (auto simp: add_step_def cond_wait_def caller_pc_def holds_def)
  next
    case A_Shut
    with D have "lock_m s = Locked i" "add_shape A_Shut (actors s ! i) (mem s)" by (auto simp: holds_def)
    with A_Shut run own size show ?thesis
      by (auto simp: add_step_def Let_def add_shape_def holds_def split: if_splits)
  next
    case A_SBcast
    with D have "lock_m s = Locked i" "queue_ok (mem s)" by (auto simp: holds_def add_shape_def)
    with A_SBcast run own[of A_SUnlock] size no_worker_wakes(1)[OF inv] show ?thesis
      by (auto simp: add_step_def Let_def add_shape_def holds_def)
  next
    case A_SUnlock
    with D have "lock_m s = Locked i" "queue_ok (mem s)" by (auto simp: holds_def add_shape_def)
    with adds_release[OF inv this(1) i this(2), of Idle] A_SUnlock run size show ?thesis
      by (auto simp: add_step_def unlock_pool_def result_def mutex_unlock_def caller_pc_def holds_def)
  next
    case A_Clear
    with D have "lock_m s = Locked i" "queue_ok (mem s)" "queue_size (mem s) < queue_max_size (mem s)"
      by (auto simp: holds_def add_shape_def)
    with write_slot_adds[OF inv this(1) i this(2,3)] A_Clear run size show ?thesis
      by (auto simp: add_step_def Let_def holds_def add_shape_def)
  next
    case A_Fn
    with D have "lock_m s = Locked i" "queue_ok (mem s)" "queue_size (mem s) < queue_max_size (mem s)"
      by (auto simp: holds_def add_shape_def)
    with write_slot_adds[OF inv this(1) i this(2,3)] A_Fn run size show ?thesis
      by (auto simp: add_step_def Let_def holds_def add_shape_def)
  next
    case A_Arg
    with D have "lock_m s = Locked i" "queue_ok (mem s)" "queue_size (mem s) < queue_max_size (mem s)"
      and t: "t_function (task_queue (mem s) ! nat (queue_rear (mem s))) = l_fn (actors s ! i)"
      by (auto simp: holds_def add_shape_def Let_def)
    moreover have "(task_queue (mem s) ! nat (queue_rear (mem s)))\<lparr>t_arg := l_arg (actors s ! i)\<rparr> = task_of (actors s ! i)"
      using t by (simp add: task_of_def)
    ultimately show ?thesis
      using write_slot_adds[OF inv _ i, where f = "\<lambda>t. t\<lparr>t_arg := l_arg (actors s ! i)\<rparr>" and q = A_Rear] A_Arg run size
      by (auto simp: add_step_def Let_def holds_def add_shape_def task_of_def)
  next
    case A_Rear
    with D have l: "lock_m s = Locked i" and ok: "queue_ok (mem s)" "queue_size (mem s) < queue_max_size (mem s)"
      and t: "task_queue (mem s) ! nat (queue_rear (mem s)) = task_of (actors s ! i)"
      by (auto simp: holds_def add_shape_def Let_def)
    let ?p = "(mem s)\<lparr>queue_rear := (queue_rear (mem s) + 1) smod queue_max_size (mem s)\<rparr>"
    have "s' = goto i (A A_Size) (s\<lparr>mem := ?p\<rparr>)"
      using A_Rear run ok by (auto simp: add_step_def Let_def wrap_next_def on_mem_def queue_ok_def)
    moreover have "add_shape A_Size ((actors s ! i)\<lparr>pc := A A_Size\<rparr>) ?p"
      using next_rear[OF ok] t by (simp add: add_shape_def task_of_def)
    ultimately show ?thesis
      using adds_owner[OF inv l i, of A_Size ?p] next_rear(3)[OF ok] A_Rear size by (auto simp: holds_def)
  next
    case A_Size
    with D have l: "lock_m s = Locked i" and sh: "queue_ok (counted (mem s))"
      "queue_tasks (counted (mem s)) = queue_tasks (mem s) @ [task_of (actors s ! i)]"
      by (auto simp: holds_def add_shape_def Let_def)
    have "s' = goto i (A A_Signal) (s\<lparr>mem := counted (mem s)\<rparr>)"
      using A_Size run by (simp add: add_step_def Let_def on_mem_def counted_def)
    then show ?thesis
      using adds_owner[OF inv l i, of A_Signal] sh A_Size pcq i
      by (auto simp: holds_def add_shape_def adds_now_def at_pc_def)
  next
    case A_Signal
    with D have "lock_m s = Locked i" "queue_ok (mem s)" by (auto simp: holds_def add_shape_def)
    then have inv': "adds_inv (goto i (A A_Unlock) s)" by (intro own) (auto simp: add_shape_def holds_def)
    with A_Signal run size no_worker_wakes(2)[OF inv'] show ?thesis
      by (auto simp: add_step_def Let_def)
  next
    case A_Unlock
    with D have "lock_m s = Locked i" "queue_ok (mem s)" by (auto simp: holds_def add_shape_def)
    with adds_release[OF inv this(1) i this(2), of Idle] A_Unlock run size show ?thesis
      by (auto simp: add_step_def unlock_pool_def result_def mutex_unlock_def caller_pc_def holds_def)
  qed
qed

lemma tstep_adds:
  assumes inv: "adds_inv s" and run: "tstep i j s = Some s'"
  shows "adds_inv s' \<and> queue_tasks (mem s') = queue_tasks (mem s) @ adds_now i s"
proof -
  have i: "i < length (actors s)" and c: "caller_pc (pc (actors s ! i))"
    using inv run by (auto simp: tstep_def adds_inv_def split: if_splits)
  have free: "lock_m s \<noteq> Locked i" if "\<not> holds (pc (actors s ! i))"
    using that inv i by (auto simp: adds_inv_def owned_def pcs_def)
  show ?thesis
  proof (cases "pc (actors s ! i)")
    case (A q)
    then show ?thesis using add_step_adds[OF inv i A] run i inv by (auto simp: tstep_def adds_inv_def)
  next
    case Idle
    then have "caller_step i (actors s ! i) s = Some s'" using run by (auto simp: tstep_def split: if_splits)
    moreover have "adds_now i s = []" using Idle by (simp add: adds_now_def at_pc_def)
    ultimately show ?thesis
      using adds_move[OF inv i free] Idle
      by (auto simp: caller_step_def holds_def caller_pc_def split: list.splits pool_op.splits)
  next
    case (D d)
    then have "destroy_step i d (actors s ! i) s = Some s'" using run by (auto simp: tstep_def split: if_splits)
    moreover have "d = D_Set \<or> d = D_JoinM" using c D by (simp add: caller_pc_def)
    moreover have "\<not> at_pc (M M_Gone) k s" for k
      using inv by (auto simp: adds_inv_def at_pc_def caller_pc_def dest!: nth_mem[of k] split: pc.splits)
    moreover have "adds_now i s = []" using D by (simp add: adds_now_def at_pc_def)
    ultimately show ?thesis
      using adds_move[OF adds_set_shutdown(1)[OF inv], of i "D D_JoinM" "\<lambda>a. a"]
        adds_set_shutdown(2)[OF inv] free D i
      by (auto simp: destroy_step_def on_mem_def holds_def caller_pc_def same_pc_def upd_def)
  qed (use c in \<open>auto simp: caller_pc_def\<close>)
qed

section \<open>Whole runs\<close>

fun added :: "(nat \<times> nat) list \<Rightarrow> psys \<Rightarrow> task list" where
  "added [] s = []"
| "added ((i, j) # sched) s =
     (case tstep i j s of None \<Rightarrow> [] | Some s' \<Rightarrow> adds_now i s @ added sched s')"

lemma run_adds:
  "run sched s = Some s' \<Longrightarrow> adds_inv s \<Longrightarrow>
     adds_inv s' \<and> queue_tasks (mem s') = queue_tasks (mem s) @ added sched s"
proof (induction sched s rule: run.induct)
  case (2 i j sched s)
  then obtain s1 where s1: "tstep i j s = Some s1" "run sched s1 = Some s'" by (auto split: option.splits)
  with tstep_adds[OF "2.prems"(2) s1(1)] "2.IH"[OF s1] show ?case by simp
qed simp

definition callers_state :: "pool \<Rightarrow> pool_op list list \<Rightarrow> psys" where
  "callers_state p ops =
     \<lparr>mem = p, lock_m = Unlocked, counter_m = Unlocked, actors = map (new_actor Idle) ops,
      executed = [], fault = None\<rparr>"

lemma callers_state_inv: "queue_ok p \<Longrightarrow> adds_inv (callers_state p ops)"
  by (auto simp: adds_inv_def callers_state_def owned_def pcs_def new_actor_def holds_def never_def caller_pc_def)

end
