(* ===== verification/Pool_Claims.thy ===== *)
theory Pool_Claims
  imports Pool_Adds
begin

text \<open>
  The properties of \<^verbatim>\<open>threadpool/main.c\<close>: the queue, concurrent adding, what
  the threads of the pool can and cannot do, and the life of a pool from creation to
  destruction.
\<close>

section \<open>The queue\<close>

text \<open>
  C4. The circular task queue refines a bounded list: every sequence of puts and takes that
  the list allows (no put when full, no take when empty) runs on the array without an
  out-of-range index, takes out the same tasks in the same order, and leaves the same tasks.
\<close>
theorem pool_queue_refines_list:
  assumes "queue_ok p" and "list_run (queue_room p) (queue_tasks p) ops = Some (ts, out)"
  shows "\<exists>p'. queue_run put take_task p ops = Inr (p', out) \<and> queue_ok p' \<and> queue_tasks p' = ts"
  using tq.run_refines[OF assms] by blast

definition small_pool :: "int \<Rightarrow> pool" where
  "small_pool n =
     \<lparr>threads = [1, 2], adjust_tid = 3, task_queue = replicate (nat n) \<lparr>t_function = 0, t_arg = 0\<rparr>,
      min_thr_num = 1, max_thr_num = 2, live_thr_num = 0, busy_thr_num = 0, wait_exit_thr_num = 0,
      queue_front = 0, queue_rear = 0, queue_size = 0, queue_max_size = n, shutdown = False\<rparr>"

lemma small_pool_ok: "0 < n \<Longrightarrow> queue_ok (small_pool n)" and small_pool_empty: "queue_tasks (small_pool n) = []"
  by (simp_all add: queue_ok_def small_pool_def queue_tasks_def)

theorem pool_queue_refines_list_witness:
  "\<exists>p'. queue_run put take_task (small_pool 2)
      (map Enq [\<lparr>t_function = 7, t_arg = 1\<rparr>, \<lparr>t_function = 7, t_arg = 2\<rparr>] @ [Deq] @ [Enq \<lparr>t_function = 8, t_arg = 3\<rparr>]) =
      Inr (p', [\<lparr>t_function = 7, t_arg = 1\<rparr>]) \<and> queue_ok p' \<and>
    queue_tasks p' = [\<lparr>t_function = 7, t_arg = 2\<rparr>, \<lparr>t_function = 8, t_arg = 3\<rparr>]"
proof -
  have "queue_room (small_pool 2) = 2" by (simp add: queue_room_def small_pool_def)
  then show ?thesis
    by (intro pool_queue_refines_list) (simp_all add: small_pool_ok small_pool_empty)
qed

text \<open>
  C5. Calls of threadpool_add from any number of threads, interleaved statement by statement,
  lose and mix up nothing: while no worker runs, the queue holds the tasks it started with
  followed by the added ones, each added whole at the moment its caller increases the count,
  and no schedule leads to an out-of-range index or a misused mutex.
\<close>
theorem threadpool_add_linearizes:
  assumes "queue_ok p" and "run sched (callers_state p ops) = Some s"
  shows "queue_tasks (mem s) = queue_tasks p @ added sched (callers_state p ops) \<and> fault s = None"
  using run_adds[OF assms(2) callers_state_inv[OF assms(1)]]
  by (auto simp: adds_inv_def callers_state_def)

text \<open>Two callers: one holds the lock while the other waits for it, then the other adds.\<close>

definition two_adds :: "(nat \<times> nat) list" where
  "two_adds = replicate 3 (0, 0) @ [(1, 0)] @ replicate 8 (0, 0) @ replicate 10 (1, 0)"

theorem threadpool_add_linearizes_witness:
  "\<exists>s. run two_adds (callers_state (small_pool 2) [[Add 7 1], [Add 8 2]]) = Some s \<and>
    queue_tasks (mem s) = [\<lparr>t_function = 7, t_arg = 1\<rparr>, \<lparr>t_function = 8, t_arg = 2\<rparr>] \<and> fault s = None"
proof -
  let ?s0 = "callers_state (small_pool 2) [[Add 7 1], [Add 8 2]]"
  have "run two_adds ?s0 \<noteq> None" by code_simp
  then obtain s where s: "run two_adds ?s0 = Some s" by blast
  have "added two_adds ?s0 = [\<lparr>t_function = 7, t_arg = 1\<rparr>, \<lparr>t_function = 8, t_arg = 2\<rparr>]" by code_simp
  with threadpool_add_linearizes[OF small_pool_ok s] s show ?thesis by (simp add: small_pool_empty)
qed

section \<open>The threads\<close>

text \<open>
  C15. Whatever the number of workers and callers, and whatever the schedule, no task that was
  added is ever run: a worker waits on its condition, and unlocks after taking a task, without
  having locked the pool, which POSIX leaves undefined, so no fault-free run gets as far as
  calling a task's function.
\<close>
theorem pool_runs_no_task:
  assumes "psteps (start_state p n ops) s"
  shows "executed s = []"
  using psteps_inv[OF assms start_inv] by (simp add: thread_inv_def)

text \<open>\<^verbatim>\<open>main\<close>: a pool of three workers, twenty tasks with the same argument, then destruction.\<close>

definition main_ops :: "nat \<Rightarrow> nat \<Rightarrow> pool_op list" where
  "main_ops process num = replicate 20 (Add process num) @ [Destroy]"

definition pool_main :: "create_env \<Rightarrow> nat \<Rightarrow> nat \<Rightarrow> stop + psys" where
  "pool_main e process num =
     andthen (threadpool_create e 4 3 100 100) (\<lambda>po.
       case po of None \<Rightarrow> Inl (Undef NullDeref)
       | Some p \<Rightarrow> Inr (start_state p 3 [main_ops process num]))"

theorem pool_runs_no_task_witness:
  "\<exists>s. psteps (start_state (small_pool 2) 2 [[Add 7 1]]) s \<and> executed s = []"
  using pool_runs_no_task[OF psteps.start] psteps.start by blast

text \<open>
  The sections of the source that end by releasing the pool's lock: those of the callers, of the manager and of the exiting worker,
  and the one in which a worker takes a task out (lines 124 to 137).
\<close>

definition dequeues :: "pc \<Rightarrow> bool" where
  "dequeues x \<longleftrightarrow> x \<in> W ` {W_TakeF, W_TakeA, W_Front, W_Size, W_Bcast, W_Unlock}"

definition guarded :: "pc \<Rightarrow> bool" where
  "guarded x \<longleftrightarrow> holds x \<or> dequeues x"

lemma dequeues_unlocked: "dequeues x \<Longrightarrow> \<not> holds x"
  by (auto simp: dequeues_def holds_def)

text \<open>
  C14. In every reachable state a thread in a section that the source ends by releasing the pool's lock holds the lock, unless it is
  a worker taking a task out, which never does: the lock is missing there. So two threads are in such sections at the same time only
  if one of them is such a worker.
\<close>
theorem pool_lock_excludes:
  assumes "psteps (start_state p n ops) s" and "at_pc x i s" and "at_pc y j s" and "guarded x" and "guarded y"
  shows "(lock_m s = Locked i \<longleftrightarrow> \<not> dequeues x) \<and> (i = j \<or> dequeues x \<or> dequeues y)"
proof -
  have "owned (lock_m s) (pcs s)" using psteps_inv[OF assms(1) start_inv] by (simp add: thread_inv_def)
  then have "holds x \<longleftrightarrow> lock_m s = Locked i" "holds y \<longleftrightarrow> lock_m s = Locked j"
    using assms(2,3) by (auto simp: owned_def at_pc_pcs)
  then show ?thesis using assms(4,5) dequeues_unlocked by (auto simp: guarded_def)
qed

text \<open>
  The caller (thread 3, after two workers and the manager) adds a task, the first worker comes to take it, and the caller locks the pool
  for its second task.
\<close>
theorem pool_lock_excludes_witness:
  "\<exists>s. psteps (start_state (small_pool 2) 2 [[Add 7 1, Add 8 2]]) s \<and> at_pc (A A_Head) 3 s \<and> at_pc (W W_TakeF) 0 s \<and>
    lock_m s = Locked 3 \<and> fault s = None"
proof -
  let ?s0 = "start_state (small_pool 2) 2 [[Add 7 1, Add 8 2]]"
  let ?sched = "replicate 11 (3, 0) @ [(0, 0), (0, 0), (3, 0), (3, 0)]"
  have "map_option (\<lambda>s. at_pc (A A_Head) 3 s \<and> at_pc (W W_TakeF) 0 s \<and> fault s = None) (run ?sched ?s0) = Some True" by code_simp
  then obtain s where s: "run ?sched ?s0 = Some s" "at_pc (A A_Head) 3 s" "at_pc (W W_TakeF) 0 s" "fault s = None" by auto
  with pool_lock_excludes[OF run_psteps[OF s(1)] s(2,3)] run_psteps[OF s(1)] show ?thesis
    by (auto simp: guarded_def holds_def dequeues_def)
qed



text \<open>
  Since workers do not lock the queue, two of them can take the same task: there is a
  schedule of one caller and two workers after which both hold the one task that was added
  and the queue's count is -1.
\<close>
theorem two_workers_take_one_task:
  "\<exists>s. psteps (start_state (small_pool 2) 2 [[Add 7 1]]) s \<and> fault s = None \<and> queue_size (mem s) = -1 \<and>
    task_of (actors s ! 0) = \<lparr>t_function = 7, t_arg = 1\<rparr> \<and> task_of (actors s ! 1) = \<lparr>t_function = 7, t_arg = 1\<rparr>"
proof -
  let ?s0 = "start_state (small_pool 2) 2 [[Add 7 1]]"
  let ?sched = "replicate 11 (3, 0) @ [(0, 0), (1, 0), (0, 0), (1, 0), (0, 0), (1, 0), (0, 0), (1, 0)] @
    replicate 2 (0, 0) @ replicate 2 (1, 0)"
  have "map_option (\<lambda>s. (fault s, queue_size (mem s), task_of (actors s ! 0), task_of (actors s ! 1))) (run ?sched ?s0)
      = Some (None, -1, \<lparr>t_function = 7, t_arg = 1\<rparr>, \<lparr>t_function = 7, t_arg = 1\<rparr>)" by code_simp
  then show ?thesis using run_psteps[of ?sched ?s0] by fastforce
qed

section \<open>The life of a pool\<close>

text \<open>
  C36. A pool that threadpool_create returns: an empty queue of the requested capacity, its indices at 0, not shut down, with the
  requested bounds on the threads and the manager's identifier, the
  started threads' identifiers in the first min_thr_num slots and zeros in the slots above them
  up to max_thr_num, and no thread counted as live, although min_thr_num threads run, as busy, or as told to exit.
\<close>
theorem threadpool_create_returns:
  assumes "threadpool_create e me mn mx qmax = Inr (Some p)" and "0 < qmax"
  shows "queue_ok p \<and> queue_tasks p = [] \<and> queue_room p = nat qmax \<and>
    queue_front p = 0 \<and> queue_rear p = 0 \<and> queue_size p = 0 \<and> queue_max_size p = qmax \<and>
    length (task_queue p) = nat qmax \<and> length (threads p) = nat (2 * qmax) \<and>
    \<not> shutdown p \<and> min_thr_num p = mn \<and> max_thr_num p = mx \<and> adjust_tid p = new_adjust e \<and>
    live_thr_num p = 0 \<and> busy_thr_num p = 0 \<and> wait_exit_thr_num p = 0 \<and>
    0 \<le> mx \<and> mx \<le> 2 * qmax \<and> mn \<le> 2 * qmax \<and>
    (\<forall>j < nat (2 * qmax). threads p ! j =
       (if j < nat mn then new_tid e j else if j < nat mx then 0 else raw_tid e))"
proof -
  have room: "threads_room qmax = nat (2 * qmax)" using assms(2) by (simp add: threads_room_def)
  from create_success[OF assms(1)] obtain ts where
    "p = fresh_pool e mn mx qmax ts" "length ts = nat (2 * qmax)" "0 \<le> mx" "mx \<le> int (nat (2 * qmax))" "nat mn \<le> nat (2 * qmax)"
    "\<forall>j < nat (2 * qmax). ts ! j = (if j < nat mn then new_tid e j else if j < nat mx then 0 else raw_tid e)"
    unfolding room by blast
  then show ?thesis
    using assms(2) by (auto simp: fresh_pool_def queue_ok_def queue_tasks_def queue_room_def)
qed

definition good_env :: create_env where
  "good_env = \<lparr>ok_pool = True, ok_threads = True, ok_queue = True, ok_lock = True, ok_counter = True,
     ok_not_empty = True, ok_not_full = True, raw_tasks = (\<lambda>_. \<lparr>t_function = 0, t_arg = 0\<rparr>),
     raw_tid = 0, new_tid = Suc, new_adjust = 4\<rparr>"

lemma good_create:
  "\<exists>p. threadpool_create good_env 0 2 3 4 = Inr (Some p)"
proof -
  have "(case threadpool_create good_env 0 2 3 4 of Inr (Some p) \<Rightarrow> True | _ \<Rightarrow> False)" by code_simp
  then show ?thesis by (auto split: sum.splits option.splits)
qed

theorem threadpool_create_returns_witness:
  "\<exists>p. threadpool_create good_env 0 2 3 4 = Inr (Some p) \<and> live_thr_num p = 0 \<and> queue_room p = 4 \<and>
    min_thr_num p = 2 \<and> max_thr_num p = 3 \<and> adjust_tid p = 4 \<and> \<not> shutdown p"
proof -
  obtain p where p: "threadpool_create good_env 0 2 3 4 = Inr (Some p)" using good_create by blast
  from threadpool_create_returns[OF p] p show ?thesis by (auto simp: good_env_def)
qed

text \<open>
  threadpool_create returns NULL only when the pool itself cannot be allocated: each later
  failure makes threadpool_free read an uninitialised pointer, lock a mutex that was not
  initialised, or destroy one that it has locked.
\<close>
theorem threadpool_create_null:
  assumes "threadpool_create e me mn mx qmax = Inr None"
  shows "\<not> ok_pool e"
proof
  assume "ok_pool e"
  moreover have "m_threads m = Block \<or> m_task_queue m = Garbage \<Longrightarrow> free_null me (Some m) \<noteq> Inr None" for m
    using free_never_returns_0[of m me] by (auto simp: free_null_def threadpool_free_def)
  ultimately show False
    using assms by (auto simp: threadpool_create_def andthen_def split: if_splits sum.splits)
qed

theorem threadpool_create_null_witness:
  "threadpool_create (good_env\<lparr>ok_pool := False\<rparr>) 0 2 3 4 = Inr None \<and> \<not> ok_pool (good_env\<lparr>ok_pool := False\<rparr>)"
proof -
  have "threadpool_create (good_env\<lparr>ok_pool := False\<rparr>) 0 2 3 4 = Inr None"
    by (simp add: threadpool_create_def free_null_def threadpool_free_def)
  with threadpool_create_null[OF this] show ?thesis by simp
qed

text \<open>
  The thread array is allocated as queue_max_size tasks but cleared as max_thr_num thread
  identifiers: with more than twice as many threads as queue slots the clearing writes past
  its end.
\<close>
theorem threadpool_create_overflow:
  assumes "ok_pool e" and "ok_threads e" and "0 \<le> qmax" and "2 * qmax < mx"
  shows "threadpool_create e me mn mx qmax = Inl (Undef OutOfBounds)"
proof -
  have "int (threads_room qmax) < mx" using assms(3,4) by (simp add: threads_room_def zdiv_int)
  then have "clear_threads mx (replicate (threads_room qmax) (raw_tid e)) = Inl (Undef OutOfBounds)"
    by (simp add: clear_threads_def)
  then show ?thesis using assms(1,2) by (simp add: threadpool_create_def)
qed

theorem threadpool_create_overflow_witness:
  "threadpool_create good_env 0 1 3 1 = Inl (Undef OutOfBounds)"
  by (rule threadpool_create_overflow) (simp_all add: good_env_def)

text \<open>
  C37. One round of the manager: it starts at most ten threads and never more than max_thr_num
  are counted, but it starts them in slots that already hold an identifier, overwriting it, and
  fills no empty slot, so a pool grows by at most as many threads as it has identifiers; it
  signals ten times exactly when fewer than half of the live threads are busy and more than
  the minimum live.
\<close>
theorem adjust_round_bounds:
  assumes "adjust_round tid p = Inr (p', n)" and "0 < tid" and "live_thr_num p \<le> max_thr_num p"
  shows "live_thr_num p \<le> live_thr_num p' \<and> live_thr_num p' \<le> max_thr_num p \<and>
    live_thr_num p' - live_thr_num p \<le> 10 \<and>
    live_thr_num p' - live_thr_num p \<le> int (length (filter (\<lambda>t. t \<noteq> 0) (threads p))) \<and>
    (\<forall>j < length (threads p). threads p' ! j = 0 \<longleftrightarrow> threads p ! j = 0) \<and>
    n = (if busy_thr_num p * 2 < live_thr_num p \<and> min_thr_num p < live_thr_num p then 10 else 0)"
proof -
  let ?grow = "10 \<le> queue_size p \<and> live_thr_num p < max_thr_num p"
  obtain q where q: "(if ?grow then grow (nat (max_thr_num p)) 0 0 tid p else Inr p) = Inr q"
    and p': "p' = q \<or> p' = q\<lparr>wait_exit_thr_num := 10\<rparr>"
    and n: "n = (if busy_thr_num p * 2 < live_thr_num p \<and> min_thr_num q < live_thr_num p then 10 else 0)"
    using assms(1) by (auto simp: adjust_round_def Let_def andthen_def split: sum.splits if_splits)
  have "live_thr_num p \<le> live_thr_num q \<and> live_thr_num q \<le> max_thr_num p \<and>
      live_thr_num q - live_thr_num p \<le> 10 \<and>
      live_thr_num q - live_thr_num p \<le> int (length (filter (\<lambda>t. t \<noteq> 0) (threads p))) \<and>
      (\<forall>j < length (threads p). threads q ! j = 0 \<longleftrightarrow> threads p ! j = 0) \<and> min_thr_num q = min_thr_num p"
  proof (cases ?grow)
    case True
    then have g: "grow (nat (max_thr_num p)) 0 0 tid p = Inr q" using q by simp
    show ?thesis using grow_bounds[OF g assms(2) _ assms(3)] grow_count[OF g] by simp
  next
    case False
    then show ?thesis using q assms(3) by (auto split: if_splits)
  qed
  then show ?thesis using p' n by auto
qed

text \<open>Ten tasks, two identifiers, room for five threads: two are started, over the old ones.\<close>

theorem adjust_round_bounds_witness:
  "\<exists>p' n. adjust_round 9 ((small_pool 12)\<lparr>queue_size := 10, max_thr_num := 5, threads := [1, 2, 0, 0, 0]\<rparr>) = Inr (p', n) \<and>
    threads p' = [9, 10, 0, 0, 0] \<and> live_thr_num p' \<le> 5 \<and> n = 0"
proof -
  let ?p = "(small_pool 12)\<lparr>queue_size := 10, max_thr_num := 5, threads := [1, 2, 0, 0, 0]\<rparr>"
  obtain p' n where r: "adjust_round 9 ?p = Inr (p', n)" "threads p' = [9, 10, 0, 0, 0]"
    by (simp add: adjust_round_def small_pool_def Let_def numeral_eq_Suc)
  have "live_thr_num p' \<le> max_thr_num ?p \<and> n = 0"
    using adjust_round_bounds[OF r(1)] by (simp add: small_pool_def)
  then show ?thesis using r by simp
qed

text \<open>
  Destroying a pool right after its creation joins the manager and no worker, wakes no
  worker (the running ones were never counted as live), and then never returns: freeing locks
  each mutex and destroys it while it is locked.
\<close>
theorem destroy_after_create:
  assumes "threadpool_create e me mn mx qmax = Inr (Some p)"
  shows "\<exists>r. treadpool_destory me (Some p) l c = (Inl r, [Join (new_adjust e)])"
proof -
  let ?m = "\<lparr>m_task_queue = Block, m_threads = Block, m_lock = l, m_counter = c\<rparr>"
  obtain r where "threadpool_free me (Some ?m) = Inl r"
    using free_never_returns_0[of ?m me] by auto
  moreover have "live_thr_num p = 0" "adjust_tid p = new_adjust e"
    using create_success[OF assms] by (auto simp: fresh_pool_def)
  ultimately show ?thesis
    by (simp add: treadpool_destory_def destroy_calls_def Let_def)
qed

theorem destroy_after_create_witness:
  "\<exists>p r. threadpool_create good_env 0 2 3 4 = Inr (Some p) \<and>
    treadpool_destory 0 (Some p) Unlocked Unlocked = (Inl r, [Join 4])"
proof -
  obtain p where p: "threadpool_create good_env 0 2 3 4 = Inr (Some p)" using good_create by blast
  from destroy_after_create[OF p, of Unlocked Unlocked] p show ?thesis by (auto simp: good_env_def)
qed

text \<open>
  In main, if the first worker reaches its test before the first task is added, the
  program is undefined there: the worker waits on the condition without holding the lock.
\<close>
theorem main_first_wait_undefined:
  assumes "pool_main e process num = Inr s"
  shows "\<exists>s'. run [(0, 0), (0, 0)] s = Some s' \<and> fault s' = Some WaitUnlocked"
proof -
  from assms obtain p where p: "threadpool_create e 4 3 100 100 = Inr (Some p)"
    and s: "s = start_state p 3 [main_ops process num]"
    by (auto simp: pool_main_def andthen_def split: sum.splits option.splits)
  have "queue_size p = 0" "\<not> shutdown p"
    using create_success[OF p] by (auto simp: fresh_pool_def)
  then show ?thesis
    by (simp add: s start_state_def tstep_def worker_step_def cond_wait_def goto_def upd_def crash_def
        new_actor_def Let_def numeral_eq_Suc)
qed

theorem main_first_wait_undefined_witness:
  "\<exists>s s'. pool_main good_env 7 1 = Inr s \<and> run [(0, 0), (0, 0)] s = Some s' \<and> fault s' = Some WaitUnlocked"
proof -
  have "(case pool_main good_env 7 1 of Inr s \<Rightarrow> True | Inl e \<Rightarrow> False)" by code_simp
  then obtain s where "pool_main good_env 7 1 = Inr s" by (auto split: sum.splits)
  with main_first_wait_undefined[OF this] show ?thesis by blast
qed

end
