(* ===== verification/Wrappers.thy ===== *)
theory Wrappers
  imports Net_Base C_Strings "HOL-Library.Sublist"
begin

text \<open>
  The checked system calls of \<^verbatim>\<open>common/wrapper.c\<close> and of its copies in
  \<^verbatim>\<open>poll/\<close>, \<^verbatim>\<open>seclect/\<close> and
  \<^verbatim>\<open>socket/\<close>: they print a message and exit when the call fails. The copies
  differ in \<^verbatim>\<open>Read\<close>: those of \<^verbatim>\<open>poll/\<close> and
  \<^verbatim>\<open>seclect/\<close> pass \<^verbatim>\<open>sizeof(buf)\<close> of a pointer, 8 bytes on the
  64-bit machines the code is built for, and \<^verbatim>\<open>socket/\<close> has none. The locale
  \<open>checked_read\<close> is what the servers rely on.
\<close>

section \<open>The wrappers\<close>

definition sys_err :: "'a io" where
  "sys_err = halt (Exit 1)"

definition Socket :: "kernel \<Rightarrow> int \<Rightarrow> int \<Rightarrow> int \<Rightarrow> int io" where
  "Socket k domain type protocol =
     bnd (sys k (CSocket domain type 0)) (\<lambda>r. if ret r = -1 then sys_err else pure (ret r))"

definition Bind :: "kernel \<Rightarrow> int \<Rightarrow> int \<Rightarrow> int io" where
  "Bind k fd port = bnd (sys k (CBind fd port)) (\<lambda>r. if ret r \<noteq> 0 then sys_err else pure (ret r))"

definition Listen :: "kernel \<Rightarrow> int \<Rightarrow> int io" where
  "Listen k fd = bnd (sys k (CListen fd 128)) (\<lambda>r. if ret r \<noteq> 0 then sys_err else pure (ret r))"

definition Accept :: "kernel \<Rightarrow> int \<Rightarrow> int io" where
  "Accept k fd = bnd (sys k (CAccept fd)) (\<lambda>r. if ret r < 0 then sys_err else pure (ret r))"

text \<open>The result carries the bytes that were stored in the caller's buffer.\<close>

definition Read :: "kernel \<Rightarrow> int \<Rightarrow> nat \<Rightarrow> resp io" where
  "Read k fd n = bnd (sys k (CRead fd n)) (\<lambda>r. if ret r < 0 then sys_err else pure r)"

definition sizeof_pointer :: nat where
  "sizeof_pointer = 8"

definition Read_ptr :: "kernel \<Rightarrow> int \<Rightarrow> nat \<Rightarrow> resp io" where
  "Read_ptr k fd n = bnd (sys k (CRead fd sizeof_pointer)) (\<lambda>r. if ret r < 0 then sys_err else pure r)"

lemma wp_sys_err [wp_simps]: "wp sys_err Q E h = E (Exit 1) h"
  by (simp add: sys_err_def wp_simps)

lemma sys_err_run [io_simps]: "sys_err h = (Inl (Exit 1), h)"
  by (simp add: sys_err_def io_simps)

lemmas wrapper_defs = Socket_def Bind_def Listen_def Accept_def Read_def Read_ptr_def

section \<open>What the servers rely on\<close>

text \<open>
  A checked read either exits with 1 or yields a count that is neither negative nor more than
  its limit, with as many bytes; it makes one call of \<^verbatim>\<open>read\<close>.
\<close>

locale checked_read =
  fixes rd :: "kernel \<Rightarrow> int \<Rightarrow> nat \<Rightarrow> resp io"
    and limit :: "nat \<Rightarrow> nat"
  assumes read_law: "read_bounded k \<Longrightarrow>
      wp (rd k fd n)
        (\<lambda>r h'. 0 \<le> ret r \<and> ret r \<le> int (limit n) \<and> int (length (dat r)) = ret r \<and>
           h' = (CRead fd (limit n), r) # h)
        (\<lambda>e h'. e = Exit 1 \<and> (\<exists>r. h' = (CRead fd (limit n), r) # h)) h"
begin

lemma read_then:
  assumes "read_bounded k"
    and "\<And>r. 0 \<le> ret r \<Longrightarrow> ret r \<le> int (limit n) \<Longrightarrow> int (length (dat r)) = ret r \<Longrightarrow>
        wp (f r) Q E ((CRead fd (limit n), r) # h)"
    and "\<And>r. E (Exit 1) ((CRead fd (limit n), r) # h)"
  shows "wp (bnd (rd k fd n) f) Q E h"
  unfolding wp_bnd
  by (rule wp_mono[OF read_law[OF assms(1)]]) (use assms(2,3) in auto)

text \<open>The branches the servers write for a negative count never run.\<close>

lemma negative_branch_dead:
  assumes "read_bounded k"
  shows "bnd (rd k fd n) (\<lambda>r. if ret r < 0 then f r else g r) h = bnd (rd k fd n) g h"
  using read_law[OF assms, of fd n h] by (auto simp: wp_def bnd_def split: prod.splits sum.splits)

end

interpretation common: checked_read Read "\<lambda>n. n"
  by unfold_locales (auto simp: Read_def wp_simps read_boundedD)

interpretation ptr: checked_read Read_ptr "\<lambda>_. sizeof_pointer"
proof
  fix k :: kernel and fd n h
  assume "read_bounded k"
  from read_boundedD[OF this, of h fd sizeof_pointer]
  show "wp (Read_ptr k fd n)
      (\<lambda>r h'. 0 \<le> ret r \<and> ret r \<le> int sizeof_pointer \<and> int (length (dat r)) = ret r \<and>
         h' = (CRead fd sizeof_pointer, r) # h)
      (\<lambda>e h'. e = Exit 1 \<and> (\<exists>r. h' = (CRead fd sizeof_pointer, r) # h)) h"
    by (auto simp: Read_ptr_def wp_simps)
qed

section \<open>Input and output of a history\<close>

text \<open>
  The bytes read from descriptors, and the bytes written to the standard output, oldest first.
\<close>

fun read_bytes :: "history \<Rightarrow> bytes" where
  "read_bytes [] = []"
| "read_bytes ((c, r) # h) =
     read_bytes h @ (case c of CRead fd n \<Rightarrow> take (nat (ret r)) (dat r) | _ \<Rightarrow> [])"

fun printed :: "history \<Rightarrow> bytes" where
  "printed [] = []"
| "printed ((c, r) # h) =
     printed h @ (case c of CWrite fd b \<Rightarrow> if fd = STDOUT_FILENO then b else [] | _ \<Rightarrow> [])"

text \<open>
  The bytes read from one descriptor, those handed to \<^verbatim>\<open>write\<close> for it, and those that
  \<^verbatim>\<open>write\<close> took, as many of each call's bytes as it answers.
\<close>

fun got_on :: "int \<Rightarrow> history \<Rightarrow> bytes" where
  "got_on fd [] = []"
| "got_on fd ((c, r) # h) =
     got_on fd h @ (case c of CRead d n \<Rightarrow> if d = fd then take (nat (ret r)) (dat r) else [] | _ \<Rightarrow> [])"

fun handed_on :: "int \<Rightarrow> history \<Rightarrow> bytes" where
  "handed_on fd [] = []"
| "handed_on fd ((c, r) # h) =
     handed_on fd h @ (case c of CWrite d b \<Rightarrow> if d = fd then b else [] | _ \<Rightarrow> [])"

fun put_on :: "int \<Rightarrow> history \<Rightarrow> bytes" where
  "put_on fd [] = []"
| "put_on fd ((c, r) # h) =
     put_on fd h @ (case c of CWrite d b \<Rightarrow> if d = fd then take (nat (ret r)) b else [] | _ \<Rightarrow> [])"

text \<open>No write to the descriptor failed or took only a part of its bytes.\<close>

definition whole_writes :: "int \<Rightarrow> history \<Rightarrow> bool" where
  "whole_writes fd h \<longleftrightarrow>
     (\<forall>(c, r) \<in> set h. case c of CWrite d b \<Rightarrow> d = fd \<longrightarrow> length b \<le> nat (ret r) | _ \<Rightarrow> True)"

lemma whole_writes_simps [simp]:
  "whole_writes fd []"
  "whole_writes fd ((c, r) # h) \<longleftrightarrow>
     (case c of CWrite d b \<Rightarrow> d = fd \<longrightarrow> length b \<le> nat (ret r) | _ \<Rightarrow> True) \<and> whole_writes fd h"
  by (auto simp: whole_writes_def)

lemma put_on_subseq: "subseq (put_on fd h) (handed_on fd h)"
proof (induction fd h rule: put_on.induct)
  case (2 fd c r h)
  then show ?case
    by (auto split: call.split intro: list_emb_append_mono prefix_imp_subseq[OF take_is_prefix])
qed simp

lemma put_on_whole: "put_on fd h = handed_on fd h \<longleftrightarrow> whole_writes fd h"
proof (induction fd h rule: put_on.induct)
  case (2 fd c r h)
  have len: "length (put_on fd h) \<le> length (handed_on fd h)"
    by (rule list_emb_length[OF put_on_subseq])
  have "put_on fd h @ take n b = handed_on fd h @ b \<longleftrightarrow> put_on fd h = handed_on fd h \<and> length b \<le> n" for n b
  proof
    assume eq: "put_on fd h @ take n b = handed_on fd h @ b"
    from arg_cong[OF this, of length] len have "length (put_on fd h) = length (handed_on fd h)" "length b \<le> n"
      by (auto simp: min_def split: if_splits)
    with eq show "put_on fd h = handed_on fd h \<and> length b \<le> n" by simp
  qed simp
  with 2 show ?case by (auto split: call.split)
qed simp

section \<open>Opening a listening socket\<close>

text \<open>
  The opening statements the servers share: a stream socket, the reuse option where the
  program sets it, an address with the port, and listening.
\<close>

definition open_listener :: "kernel \<Rightarrow> bool \<Rightarrow> int \<Rightarrow> int io" where
  "open_listener k reuse port =
     bnd (Socket k AF_INET SOCK_STREAM 0) (\<lambda>fd.
     bnd (if reuse then bnd (sys k (CSetReuse fd)) (\<lambda>_. pure ()) else pure ()) (\<lambda>_.
     bnd (Bind k fd port) (\<lambda>_.
     bnd (Listen k fd) (\<lambda>_. pure fd))))"

text \<open>What no call of the opening touches holds afterwards.\<close>

definition opening_call :: "call \<Rightarrow> bool" where
  "opening_call c =
     (case c of CSocket d t p \<Rightarrow> True | CSetReuse fd \<Rightarrow> True | CBind fd p \<Rightarrow> True | CListen fd n \<Rightarrow> True | _ \<Rightarrow> False)"

lemma wp_open_listener_keeps:
  assumes "I h" and keep: "\<And>c r h. opening_call c \<Longrightarrow> I h \<Longrightarrow> I ((c, r) # h)"
  shows "wp (open_listener k reuse port) (\<lambda>fd h'. fd \<noteq> -1 \<and> I h') (\<lambda>_. I) h"
  using assms(1) by (auto simp: open_listener_def wrapper_defs wp_simps opening_call_def intro!: keep)

lemma wp_open_listener:
  assumes "I h" and "\<And>c r h. opening_call c \<Longrightarrow> I h \<Longrightarrow> I ((c, r) # h)"
  shows "wp (open_listener k reuse port) (\<lambda>fd h'. fd \<noteq> -1 \<and> I h') any_stop h"
  using wp_open_listener_keeps[of I h k reuse port, OF assms] by (rule wp_mono) auto

definition no_conns :: "history \<Rightarrow> bool" where
  "no_conns h \<longleftrightarrow> open_conns h = {} \<and> (\<forall>e. watched e h = {})"

lemma no_conns_opening: "opening_call c \<Longrightarrow> no_conns h \<Longrightarrow> no_conns ((c, r) # h)"
  by (auto simp: no_conns_def opening_call_def split: call.splits)

end
