(* ===== verification/Slots.thy ===== *)
theory Slots
  imports Net_Base
begin

text \<open>
  Tables with a slot per connection, as three of the servers keep them: an array searched for
  the first free slot. \<open>scan\<close> is the search loop; the locale \<open>slot_table\<close> is
  what the servers rely on when they store a descriptor and when they clear its slot.
\<close>

section \<open>Searching\<close>

text \<open>
  \<^verbatim>\<open>for(i = a; i < a + m; i++) if(free(xs[i])) break;\<close> and the value of
  \<^verbatim>\<open>i\<close> after it.
\<close>

fun scan :: "('a \<Rightarrow> bool) \<Rightarrow> 'a list \<Rightarrow> nat \<Rightarrow> nat \<Rightarrow> nat" where
  "scan P xs a 0 = a"
| "scan P xs a (Suc m) = (if P (xs ! a) then a else scan P xs (Suc a) m)"

lemma scan_numeral:
  "scan P xs a (numeral m) = (if P (xs ! a) then a else scan P xs (Suc a) (pred_numeral m))"
  by (simp add: numeral_eq_Suc)

lemma scan_bounds: "a \<le> scan P xs a m \<and> scan P xs a m \<le> a + m"
proof (induction P xs a m rule: scan.induct)
  case (2 P xs a m)
  then show ?case by (cases "P (xs ! a)") auto
qed simp

lemma scan_found: "scan P xs a m < a + m \<Longrightarrow> P (xs ! scan P xs a m)"
  by (induction P xs a m rule: scan.induct) auto

lemma scan_before: "a \<le> j \<Longrightarrow> j < scan P xs a m \<Longrightarrow> \<not> P (xs ! j)"
proof (induction P xs a m rule: scan.induct)
  case (2 P xs a m)
  then show ?case by (cases "j = a") (auto split: if_splits)
qed simp

lemma scan_none: "scan P xs a m = a + m \<longleftrightarrow> (\<forall>j. a \<le> j \<and> j < a + m \<longrightarrow> \<not> P (xs ! j))"
proof
  assume l: "scan P xs a m = a + m"
  show "\<forall>j. a \<le> j \<and> j < a + m \<longrightarrow> \<not> P (xs ! j)" using scan_before[of a _ P xs m] l by auto
next
  assume r: "\<forall>j. a \<le> j \<and> j < a + m \<longrightarrow> \<not> P (xs ! j)"
  show "scan P xs a m = a + m"
    using scan_bounds[of a P xs m] scan_found[of P xs a m] r by (meson le_neq_implies_less)
qed

section \<open>Tables\<close>

text \<open>The keys of the slots that are in use.\<close>

definition keys_of :: "('a \<Rightarrow> bool) \<Rightarrow> ('a \<Rightarrow> int) \<Rightarrow> 'a list \<Rightarrow> int set" where
  "keys_of free key xs = key ` {x \<in> set xs. \<not> free x}"

definition one_each :: "('a \<Rightarrow> bool) \<Rightarrow> ('a \<Rightarrow> int) \<Rightarrow> 'a list \<Rightarrow> bool" where
  "one_each free key xs \<longleftrightarrow>
     (\<forall>i j. i < length xs \<longrightarrow> j < length xs \<longrightarrow> \<not> free (xs ! i) \<longrightarrow> \<not> free (xs ! j) \<longrightarrow>
        key (xs ! i) = key (xs ! j) \<longrightarrow> i = j)"

lemma keys_of_iff: "v \<in> keys_of free key xs \<longleftrightarrow> (\<exists>i < length xs. \<not> free (xs ! i) \<and> key (xs ! i) = v)"
  by (auto simp: keys_of_def in_set_conv_nth)

locale slot_table =
  fixes free :: "'a \<Rightarrow> bool"
    and key :: "'a \<Rightarrow> int"
    and fill :: "int \<Rightarrow> 'a \<Rightarrow> 'a"
    and clear :: "'a \<Rightarrow> 'a"
    and valid :: "int \<Rightarrow> bool"
  assumes fill_law: "valid v \<Longrightarrow> \<not> free (fill v x) \<and> key (fill v x) = v"
    and clear_law: "free (clear x)"
begin

lemma fill_keys:
  assumes "valid v" and "i < length xs" and "free (xs ! i)"
  shows "keys_of free key (xs[i := fill v (xs ! i)]) = insert v (keys_of free key xs)"
proof (rule set_eqI)
  fix w
  show "w \<in> keys_of free key (xs[i := fill v (xs ! i)]) \<longleftrightarrow> w \<in> insert v (keys_of free key xs)"
    using assms fill_law[of v "xs ! i"] by (auto simp: keys_of_iff nth_list_update)
qed

lemma fill_one_each:
  assumes "valid v" and "i < length xs" and "one_each free key xs" and "v \<notin> keys_of free key xs"
  shows "one_each free key (xs[i := fill v (xs ! i)])"
  using assms fill_law[of v "xs ! i"] unfolding one_each_def keys_of_iff
  by (auto simp: nth_list_update)

lemma clear_keys:
  assumes "one_each free key xs" and "i < length xs" and "\<not> free (xs ! i)"
  shows "keys_of free key (xs[i := clear (xs ! i)]) = keys_of free key xs - {key (xs ! i)}"
proof (rule set_eqI)
  fix w
  show "w \<in> keys_of free key (xs[i := clear (xs ! i)]) \<longleftrightarrow> w \<in> keys_of free key xs - {key (xs ! i)}"
    using assms clear_law[of "xs ! i"] unfolding one_each_def
    by (auto simp: keys_of_iff nth_list_update)
qed

lemma clear_one_each:
  "one_each free key xs \<Longrightarrow> one_each free key (xs[i := clear (xs ! i)])"
  using clear_law[of "xs ! i"] unfolding one_each_def
  by (cases "i < length xs") (auto simp: nth_list_update list_update_beyond)

text \<open>A table of distinct keys below a bound has a free slot while it has more slots than the bound.\<close>

lemma room_left:
  assumes "one_each free key xs" and "keys_of free key xs \<subseteq> {0..<n} - {l}" and "0 \<le> l" "l < n"
    and "n \<le> int (length xs)"
  shows "\<exists>i < length xs. free (xs ! i)"
proof (rule ccontr)
  assume "\<not> ?thesis"
  then have used: "i < length xs \<Longrightarrow> \<not> free (xs ! i)" for i by blast
  then have "inj_on (\<lambda>i. key (xs ! i)) {0..<length xs}"
    using assms(1) by (auto simp: one_each_def inj_on_def)
  moreover have "(\<lambda>i. key (xs ! i)) ` {0..<length xs} \<subseteq> {0..<n} - {l}"
  proof (rule image_subsetI)
    fix i assume "i \<in> {0..<length xs}"
    then have "key (xs ! i) \<in> keys_of free key xs" using used by (auto simp: keys_of_iff)
    then show "key (xs ! i) \<in> {0..<n} - {l}" using assms(2) by blast
  qed
  ultimately have "length xs \<le> card ({0..<n} - {l})"
    using card_inj_on_le[of "\<lambda>i. key (xs ! i)" "{0..<length xs}" "{0..<n} - {l}"] by simp
  also have "\<dots> = nat n - 1" using assms(3,4) by (simp add: card_Diff_subset)
  finally show False using assms(3-5) by linarith
qed

end

end
