(* ===== verification/Reactor.thy ===== *)
theory Reactor
  imports Wrappers Slots
begin

text \<open>
  The reactor of \<^verbatim>\<open>epoll_et/server3.c\<close>: event slots with a callback each,
  registered with epoll by their address (here their index), and the callbacks that accept a
  connection, receive from it and send to it. The time a slot was last active is not modelled:
  it is stored and never read.
\<close>

abbreviation (input) MAX_EVENTS :: nat where "MAX_EVENTS \<equiv> 1024"
abbreviation (input) BUFLEN :: nat where "BUFLEN \<equiv> 4096"

section \<open>Event slots\<close>

datatype callback = NoCall | CallAccept | CallRecv | CallSend

record myevent =
  e_fd :: int
  e_events :: "32 word"
  e_arg :: nat
  e_call :: callback
  e_status :: int
  e_buf :: bytes
  e_len :: int

text \<open>The global array \<^verbatim>\<open>g_events\<close> starts as zeros.\<close>

definition zero_event :: myevent where
  "zero_event = \<lparr>e_fd = 0, e_events = 0, e_arg = 0, e_call = NoCall, e_status = 0,
     e_buf = replicate BUFLEN NUL, e_len = 0\<rparr>"

definition g_events :: "myevent list" where
  "g_events = replicate (MAX_EVENTS + 1) zero_event"

definition eventset :: "nat \<Rightarrow> int \<Rightarrow> callback \<Rightarrow> nat \<Rightarrow> myevent list \<Rightarrow> myevent list" where
  "eventset i fd cb arg gs =
     gs[i := \<lparr>e_fd = fd, e_events = 0, e_arg = arg, e_call = cb, e_status = 0,
              e_buf = replicate BUFLEN NUL, e_len = 0\<rparr>]"

text \<open>The variable \<^verbatim>\<open>op\<close> is set only when the slot's status is 0.\<close>

definition eventadd :: "kernel \<Rightarrow> int \<Rightarrow> 32 word \<Rightarrow> nat \<Rightarrow> myevent list \<Rightarrow> myevent list io" where
  "eventadd k efd ems i gs =
     (let gs = gs[i := (gs ! i)\<lparr>e_events := ems\<rparr>] in
      if e_status (gs ! i) = 0
      then let gs = gs[i := (gs ! i)\<lparr>e_status := 1\<rparr>] in
           bnd (sys k (CEpollCtl efd CtlAdd (e_fd (gs ! i)) ems (int i))) (\<lambda>_. pure gs)
      else halt (Undef UninitUse))"

definition eventdel :: "kernel \<Rightarrow> int \<Rightarrow> nat \<Rightarrow> myevent list \<Rightarrow> myevent list io" where
  "eventdel k efd i gs =
     (if e_status (gs ! i) \<noteq> 1 then pure gs
      else let gs = gs[i := (gs ! i)\<lparr>e_status := 0\<rparr>] in
           bnd (sys k (CEpollCtl efd CtlDel (e_fd (gs ! i)) 0 0)) (\<lambda>_. pure gs))"

section \<open>Callbacks\<close>

definition recvdata :: "kernel \<Rightarrow> int \<Rightarrow> int \<Rightarrow> nat \<Rightarrow> myevent list \<Rightarrow> myevent list io" where
  "recvdata k efd fd i gs =
     bnd (sys k (CRecv fd BUFLEN False)) (\<lambda>r.
       let n = length (dat r); gs = gs[i := (gs ! i)\<lparr>e_buf := dat r @ drop n (e_buf (gs ! i))\<rparr>] in
       bnd (eventdel k efd i gs) (\<lambda>gs.
         if 0 < ret r
         then if int BUFLEN \<le> ret r then halt (Undef OutOfBounds)
              else let gs = gs[i := (gs ! i)\<lparr>e_len := ret r, e_buf := (e_buf (gs ! i))[nat (ret r) := NUL]\<rparr>];
                       gs = eventset i fd CallSend i gs
                   in eventadd k efd EPOLLOUT i gs
         else bnd (sys k (CClose (e_fd (gs ! i)))) (\<lambda>_. pure gs)))"

definition senddata :: "kernel \<Rightarrow> int \<Rightarrow> int \<Rightarrow> nat \<Rightarrow> myevent list \<Rightarrow> myevent list io" where
  "senddata k efd fd i gs =
     bnd (wr k (CSend fd (take (nat (e_len (gs ! i))) (e_buf (gs ! i))))) (\<lambda>r.
     bnd (eventdel k efd i gs) (\<lambda>gs.
       if 0 < ret r
       then eventadd k efd EPOLLIN i (eventset i fd CallRecv i gs)
       else bnd (sys k (CClose (e_fd (gs ! i)))) (\<lambda>_. pure gs)))"

definition free_slot :: "myevent \<Rightarrow> bool" where
  "free_slot ev \<longleftrightarrow> e_status ev = 0"

definition acceptconn :: "kernel \<Rightarrow> int \<Rightarrow> int \<Rightarrow> myevent list \<Rightarrow> myevent list io" where
  "acceptconn k efd lfd gs =
     bnd (sys k (CAccept lfd)) (\<lambda>r. let cfd = ret r; i = scan free_slot gs 0 MAX_EVENTS in
       if i = MAX_EVENTS then pure gs
       else bnd (sys k (CSetNonblock cfd)) (\<lambda>q.
         if ret q < 0 then pure gs
         else eventadd k efd EPOLLIN i (eventset i cfd CallRecv i gs)))"

definition initlistensocket :: "kernel \<Rightarrow> int \<Rightarrow> myevent list \<Rightarrow> myevent list io" where
  "initlistensocket k efd gs =
     bnd (Socket k AF_INET SOCK_STREAM 0) (\<lambda>fd.
     bnd (sys k (CSetNonblock fd)) (\<lambda>_.
     bnd (sys k (CSetReuse fd)) (\<lambda>_.
     bnd (Bind k fd 8080) (\<lambda>_.
     bnd (Listen k fd) (\<lambda>_.
       eventadd k efd EPOLLIN MAX_EVENTS (eventset MAX_EVENTS fd CallAccept MAX_EVENTS gs))))))"

section \<open>The event loop\<close>

text \<open>Calling a slot's callback with its own descriptor and argument.\<close>

definition call_back :: "kernel \<Rightarrow> int \<Rightarrow> nat \<Rightarrow> myevent list \<Rightarrow> myevent list io" where
  "call_back k efd i gs =
     (let ev = gs ! i in
      case e_call ev of
        NoCall \<Rightarrow> halt (Undef NullDeref)
      | CallAccept \<Rightarrow> acceptconn k efd (e_fd ev) gs
      | CallRecv \<Rightarrow> recvdata k efd (e_fd ev) (e_arg ev) gs
      | CallSend \<Rightarrow> senddata k efd (e_fd ev) (e_arg ev) gs)"

text \<open>One reported event: the slot it names and its mask.\<close>

definition react_event :: "kernel \<Rightarrow> int \<Rightarrow> int \<times> 32 word \<Rightarrow> myevent list \<Rightarrow> myevent list io" where
  "react_event k efd ev gs =
     (let i = nat (fst ev); ems = snd ev in
      if fst ev < 0 \<or> \<not> i < length gs then halt (Undef OutOfBounds) else
      bnd (if ems AND EPOLLIN \<noteq> 0 \<and> e_events (gs ! i) AND EPOLLIN \<noteq> 0
           then call_back k efd i gs else pure gs) (\<lambda>gs.
      if ems AND EPOLLOUT \<noteq> 0 \<and> e_events (gs ! i) AND EPOLLOUT \<noteq> 0
      then call_back k efd i gs else pure gs))"

definition react_round :: "kernel \<Rightarrow> int \<Rightarrow> myevent list \<Rightarrow> myevent list io" where
  "react_round k efd gs =
     bnd (sys k (CEpollWait efd (MAX_EVENTS + 1) 1000)) (\<lambda>r.
       for_io (take (nat (ret r)) (evs r)) (react_event k efd) gs)"

definition reactor_main :: "nat \<Rightarrow> kernel \<Rightarrow> myevent list io" where
  "reactor_main rounds k =
     bnd (sys k (CEpollCreate (int (MAX_EVENTS + 1)))) (\<lambda>r. let efd = ret r in
     bnd (initlistensocket k efd g_events) (\<lambda>gs. times rounds (react_round k efd) gs))"

end
