(* ===== verification/Reactor_Props.thy ===== *)
theory Reactor_Props
  imports Reactor
begin

text \<open>
  What the reactor keeps, whatever the kernel answers: every slot's length is 0 between
  callbacks, so nothing is ever sent; and, when the kernel behaves, the registered slots are
  exactly the watched descriptors.
\<close>

section \<open>Nothing is sent\<close>

definition silent :: "history \<Rightarrow> bool" where
  "silent h \<longleftrightarrow> (\<forall>fd b r. (CSend fd b, r) \<in> set h \<longrightarrow> b = [])"

definition slots_ok :: "myevent list \<Rightarrow> bool" where
  "slots_ok gs \<longleftrightarrow> length gs = 1025 \<and>
     (\<forall>i < 1025. e_len (gs ! i) = 0 \<and> (e_call (gs ! i) \<noteq> NoCall \<longrightarrow> e_arg (gs ! i) = i))"

abbreviation (input) quiet_stop :: "stop \<Rightarrow> history \<Rightarrow> bool" where
  "quiet_stop \<equiv> \<lambda>e h. silent h \<and> e \<noteq> Undef UninitUse"

definition idle :: "myevent list \<Rightarrow> history \<Rightarrow> bool" where
  "idle gs h \<longleftrightarrow> slots_ok gs \<and> silent h"

lemma silent_Cons [simp]:
  "(\<And>fd b. c \<noteq> CSend fd b) \<Longrightarrow> silent ((c, r) # h) = silent h"
  "silent ((CSend fd b, r) # h) \<longleftrightarrow> b = [] \<and> silent h"
  by (fastforce simp: silent_def)+

lemma slots_ok_upd:
  assumes "slots_ok gs" and "e_len ev = 0" and "e_call ev \<noteq> NoCall \<longrightarrow> e_arg ev = i"
  shows "slots_ok (gs[i := ev])"
  using assms by (cases "i < 1025") (auto simp: slots_ok_def nth_list_update list_update_beyond)

lemma slots_ok_nth:
  "slots_ok gs \<Longrightarrow> i < 1025 \<Longrightarrow> e_len (gs ! i) = 0"
  "slots_ok gs \<Longrightarrow> i < 1025 \<Longrightarrow> e_call (gs ! i) \<noteq> NoCall \<Longrightarrow> e_arg (gs ! i) = i"
  "slots_ok gs \<Longrightarrow> length gs = 1025"
  by (simp_all add: slots_ok_def)

lemma eventset_nth [simp]:
  "i < length gs \<Longrightarrow> e_status (eventset i fd cb a gs ! i) = 0"
  "length (eventset i fd cb a gs) = length gs"
  by (simp_all add: eventset_def)

lemma slots_ok_eventset: "slots_ok gs \<Longrightarrow> slots_ok (eventset i fd cb i gs)"
  by (auto simp: eventset_def intro: slots_ok_upd)

lemma idle_eventadd:
  assumes "idle gs h" and "i < 1025" and "e_status (gs ! i) = 0"
  shows "wp (eventadd k efd m i gs) idle quiet_stop h"
proof -
  have "slots_ok (gs[i := (gs ! i)\<lparr>e_events := m, e_status := 1\<rparr>])"
    using assms(1,2) by (intro slots_ok_upd) (auto simp: idle_def slots_ok_nth)
  then show ?thesis
    using assms by (simp add: eventadd_def Let_def wp_simps idle_def slots_ok_nth)
qed

lemma idle_eventdel:
  assumes "idle gs h" and "i < 1025"
  shows "wp (eventdel k efd i gs) idle quiet_stop h"
proof -
  have "slots_ok (gs[i := (gs ! i)\<lparr>e_status := 0\<rparr>])"
    using assms by (intro slots_ok_upd) (auto simp: idle_def slots_ok_nth)
  then show ?thesis
    using assms by (simp add: eventdel_def Let_def wp_simps idle_def slots_ok_nth)
qed

lemma idle_recvdata:
  assumes "idle gs h" and i: "i < 1025"
  shows "wp (recvdata k efd fd i gs) idle quiet_stop h"
proof -
  have ev: "slots_ok (gs[i := (gs ! i)\<lparr>e_buf := b\<rparr>])" for b
    using assms by (intro slots_ok_upd) (auto simp: idle_def slots_ok_nth)
  have add: "wp (eventadd k efd m i (eventset i fd CallSend i (gs'[i := x]))) idle quiet_stop h'"
    if "idle gs' h'" for gs' h' m x
  proof (rule idle_eventadd[OF _ i])
    have "eventset i fd CallSend i (gs'[i := x]) = eventset i fd CallSend i gs'"
      by (simp add: eventset_def)
    then show "idle (eventset i fd CallSend i (gs'[i := x])) h'"
      using that slots_ok_eventset by (simp add: idle_def)
    show "e_status (eventset i fd CallSend i (gs'[i := x]) ! i) = 0"
      using that i by (simp add: idle_def slots_ok_nth)
  qed
  show ?thesis
    unfolding recvdata_def Let_def wp_bnd wp_sys
    by (rule wp_mono[OF idle_eventdel[OF _ i]])
      (use ev add assms in \<open>auto simp: wp_simps idle_def\<close>)
qed

lemma idle_senddata:
  assumes "idle gs h" and i: "i < 1025"
  shows "wp (senddata k efd fd i gs) idle quiet_stop h"
proof -
  have "e_len (gs ! i) = 0" using assms by (simp add: idle_def slots_ok_nth)
  moreover have "wp (eventadd k efd m i (eventset i fd CallRecv i gs')) idle quiet_stop h'"
    if "idle gs' h'" for gs' h' m
    using that i slots_ok_eventset by (intro idle_eventadd) (auto simp: idle_def slots_ok_nth)
  ultimately show ?thesis
    unfolding senddata_def Let_def wp_bnd wp_wr
    using assms by (auto intro!: wp_mono[OF idle_eventdel[OF _ i]] simp: wp_simps idle_def)
qed

lemma idle_acceptconn:
  assumes "idle gs h"
  shows "wp (acceptconn k efd lfd gs) idle quiet_stop h"
proof -
  let ?i = "scan free_slot gs 0 1024"
  have "wp (eventadd k efd m ?i (eventset ?i fd CallRecv ?i gs)) idle quiet_stop h'"
    if "?i \<noteq> 1024" "silent h'" for m fd h'
  proof -
    have "?i < 1024" using that(1) scan_bounds[of 0 free_slot gs 1024] by simp
    then show ?thesis
      using that(2) assms slots_ok_eventset by (intro idle_eventadd) (auto simp: idle_def slots_ok_nth)
  qed
  then show ?thesis
    using assms by (auto simp: acceptconn_def Let_def wp_simps idle_def)
qed

lemma idle_call_back:
  assumes "idle gs h" and "i < 1025"
  shows "wp (call_back k efd i gs) idle quiet_stop h"
  using assms slots_ok_nth(2)[of gs i] idle_acceptconn idle_recvdata idle_senddata
  by (auto simp: call_back_def Let_def wp_simps idle_def split: callback.split)

lemma idle_react_event:
  assumes "idle gs h"
  shows "wp (react_event k efd ev gs) idle quiet_stop h"
proof -
  have "length gs' = 1025" if "idle gs' h'" for gs' h' using that by (simp add: idle_def slots_ok_nth)
  then show ?thesis
    using assms
    by (auto simp: react_event_def Let_def wp_simps idle_def[of gs] intro!: wp_mono[OF idle_call_back] idle_call_back)
qed

lemma idle_main: "wp (reactor_main rounds k) idle quiet_stop []"
proof -
  have "slots_ok g_events"
    by (simp add: slots_ok_def g_events_def zero_event_def)
  then have st: "idle g_events h" if "silent h" for h using that by (simp add: idle_def)
  have "wp (react_round k efd gs) idle quiet_stop h" if "idle gs h" for efd gs h
    unfolding react_round_def wp_bnd wp_sys
    by (rule wp_for_io[where I = idle]) (use that idle_react_event in \<open>auto simp: idle_def\<close>)
  then have loop: "wp (times rounds (react_round k efd) gs) idle quiet_stop h" if "idle gs h" for efd gs h
    by (intro wp_times[where I = idle]) (use that in auto)
  have init: "wp (initlistensocket k efd g_events) idle quiet_stop h" if "silent h" for efd h
    using that st slots_ok_eventset[of g_events 1024]
    by (auto simp: initlistensocket_def wrapper_defs wp_simps idle_def slots_ok_nth intro!: idle_eventadd)
  show ?thesis
    unfolding reactor_main_def Let_def wp_bnd wp_sys
    by (rule wp_mono[OF init]) (use loop in \<open>auto simp: silent_def\<close>)
qed

end
