(* ===== verification/Reactor_Watch.thy ===== *)
theory Reactor_Watch
  imports Reactor_Props
begin

text \<open>
  The reactor on a kernel that behaves, where adding a registration may still fail: the registrations of the epoll
  instance are those of the slots in use, each with its own descriptor, less the ones that could not be added.
\<close>

section \<open>Registrations\<close>

text \<open>The descriptors an epoll instance watches, with the datum each was registered with.\<close>

fun reg_step :: "int \<Rightarrow> (int \<times> int) set \<Rightarrow> call \<times> resp \<Rightarrow> (int \<times> int) set" where
  "reg_step efd S (c, r) =
     (case c of
        CEpollCtl e ctl fd m d \<Rightarrow>
          (if e = efd \<and> 0 \<le> ret r
           then (case ctl of CtlAdd \<Rightarrow> insert (fd, d) S | CtlDel \<Rightarrow> {p \<in> S. fst p \<noteq> fd} | CtlMod \<Rightarrow> S)
           else S)
      | CClose fd \<Rightarrow> {p \<in> S. fst p \<noteq> fd}
      | _ \<Rightarrow> S)"

fun regs :: "int \<Rightarrow> history \<Rightarrow> (int \<times> int) set" where
  "regs efd [] = {}"
| "regs efd (e # h) = reg_step efd (regs efd h) e"

lemma watched_regs: "watched efd h = fst ` regs efd h"
proof (induction h)
  case (Cons e h)
  obtain c r where "e = (c, r)" by (cases e)
  then show ?case using Cons by (auto simp: image_iff split: call.split ctl_op.split)
qed simp

text \<open>The registrations that \<^verbatim>\<open>epoll_ctl\<close> refused to add.\<close>

fun failed_adds :: "int \<Rightarrow> history \<Rightarrow> (int \<times> int) set" where
  "failed_adds efd [] = {}"
| "failed_adds efd ((c, r) # h) =
     (case c of
        CEpollCtl e ctl fd m d \<Rightarrow>
          if e = efd \<and> ctl = CtlAdd \<and> ret r < 0 then insert (fd, d) (failed_adds efd h) else failed_adds efd h
      | _ \<Rightarrow> failed_adds efd h)"

text \<open>
  Documented behaviour of the kernel the reactor relies on: new descriptors are new, accepting does not give the
  listening descriptor, a registered descriptor can be removed (adding one may fail), and a wait reports registrations,
  each of them once.
\<close>

definition epoll_kernel :: "kernel \<Rightarrow> bool" where
  "epoll_kernel k \<longleftrightarrow> kernel_fds k \<and> accept_fresh k \<and>
     (\<forall>h efd fd m d. fd \<in> watched efd h \<longrightarrow> ret (k h (CEpollCtl efd CtlDel fd m d)) = 0) \<and>
     (\<forall>h. ret (k h (CSetNonblock (-1))) < 0) \<and>
     (\<forall>h efd n t. (inj_on snd (regs efd h) \<longrightarrow> distinct (map fst (evs (k h (CEpollWait efd n t))))) \<and>
        fst ` set (evs (k h (CEpollWait efd n t))) \<subseteq> snd ` regs efd h)"

lemma epoll_kernelD:
  assumes "epoll_kernel k"
  shows "ret (k h (CAccept l)) = -1 \<or> fresh_fd h (ret (k h (CAccept l)))"
    and "0 \<le> ret (k h (CAccept l)) \<Longrightarrow> ret (k h (CAccept l)) \<noteq> l"
    and "ret (k h (CEpollCtl e c fd m d)) = 0 \<or> ret (k h (CEpollCtl e c fd m d)) = -1"
    and "fd \<in> watched efd h \<Longrightarrow> ret (k h (CEpollCtl efd CtlDel fd m d)) = 0"
    and "ret (k h (CSetNonblock (-1))) < 0"
    and "inj_on snd (regs efd h) \<Longrightarrow> distinct (map fst (evs (k h (CEpollWait efd n t))))"
    and "fst ` set (evs (k h (CEpollWait efd n t))) \<subseteq> snd ` regs efd h"
  using assms by (auto simp: epoll_kernel_def kernel_fds_def accept_fresh_def)

section \<open>Slots as a table\<close>

definition armed :: "32 word \<Rightarrow> callback \<Rightarrow> nat \<Rightarrow> int \<Rightarrow> myevent \<Rightarrow> myevent" where
  "armed m cb i fd ev = \<lparr>e_fd = fd, e_events = m, e_arg = i, e_call = cb, e_status = 1,
     e_buf = replicate BUFLEN NUL, e_len = 0\<rparr>"

definition disarm :: "myevent \<Rightarrow> myevent" where
  "disarm ev = ev\<lparr>e_status := 0\<rparr>"

lemma armed_simps [simp]:
  "e_status (armed m cb i fd ev) = 1" "e_events (armed m cb i fd ev) = m" "e_fd (armed m cb i fd ev) = fd"
  "e_call (armed m cb i fd ev) = cb" "e_arg (armed m cb i fd ev) = i" "e_len (armed m cb i fd ev) = 0"
  "e_status (disarm ev) = 0" "e_events (disarm ev) = e_events ev" "e_fd (disarm ev) = e_fd ev"
  "e_call (disarm ev) = e_call ev" "e_arg (disarm ev) = e_arg ev" "e_len (disarm ev) = e_len ev"
  by (simp_all add: armed_def disarm_def)

interpretation ev: slot_table free_slot e_fd "armed m cb i" disarm "\<lambda>_. True" for m cb i
  by unfold_locales (auto simp: free_slot_def)

definition slot_regs :: "myevent list \<Rightarrow> (int \<times> int) set" where
  "slot_regs gs = {(e_fd (gs ! i), int i) | i. i < length gs \<and> \<not> free_slot (gs ! i)}"

text \<open>The slots in use, but the last, hold accepted connections, and only the last slot listens.\<close>

definition conn_slots :: "myevent list \<Rightarrow> history \<Rightarrow> bool" where
  "conn_slots gs h \<longleftrightarrow>
     (\<forall>i < 1024. e_call (gs ! i) \<noteq> CallAccept \<and> (\<not> free_slot (gs ! i) \<longrightarrow> e_fd (gs ! i) \<in> open_conns h)) \<and>
     e_call (gs ! 1024) \<in> {NoCall, CallAccept}"

definition tracked :: "int \<Rightarrow> myevent list \<Rightarrow> history \<Rightarrow> bool" where
  "tracked efd gs h \<longleftrightarrow> slots_ok gs \<and> one_each free_slot e_fd gs \<and> conn_slots gs h \<and>
     regs efd h \<subseteq> slot_regs gs \<and> slot_regs gs \<subseteq> regs efd h \<union> failed_adds efd h \<and>
     (\<forall>i < 1025. e_status (gs ! i) \<in> {0, 1} \<and> e_events (gs ! i) \<in> {0, EPOLLIN, EPOLLOUT})"

text \<open>A slot may get a callback: the last slot listens, the others hold open connections.\<close>

definition slot_for :: "nat \<Rightarrow> int \<Rightarrow> callback \<Rightarrow> history \<Rightarrow> bool" where
  "slot_for i fd cb h \<longleftrightarrow> (if i = 1024 then cb = CallAccept else cb \<noteq> CallAccept \<and> fd \<in> open_conns h)"

lemma conn_slots_arm:
  assumes "conn_slots gs h" and "slot_for i fd cb h" and "i < 1025" "length gs = 1025" and "open_conns h' = open_conns h"
  shows "conn_slots (gs[i := armed m cb a fd ev]) h'"
  using assms by (auto simp: conn_slots_def slot_for_def nth_list_update split: if_splits)

lemma conn_slots_disarm:
  assumes "conn_slots gs h" and "length gs = 1025" "i < 1025" and "open_conns h' = open_conns h"
  shows "conn_slots (gs[i := disarm (gs ! i)]) h'"
  using assms by (auto simp: conn_slots_def nth_list_update free_slot_def)

lemma slot_regs_keys: "fst ` slot_regs gs = keys_of free_slot e_fd gs"
  by (auto simp: slot_regs_def keys_of_iff image_iff)

lemma slot_regs_arm:
  assumes "i < length gs" and "free_slot (gs ! i)"
  shows "slot_regs (gs[i := armed m cb a fd ev]) = insert (fd, int i) (slot_regs gs)"
proof (rule set_eqI)
  fix p :: "int \<times> int"
  show "p \<in> slot_regs (gs[i := armed m cb a fd ev]) \<longleftrightarrow> p \<in> insert (fd, int i) (slot_regs gs)"
    using assms by (cases p) (auto simp: slot_regs_def nth_list_update free_slot_def)
qed

lemma slot_regs_disarm:
  assumes "i < length gs" and "\<not> free_slot (gs ! i)" and "one_each free_slot e_fd gs"
  shows "slot_regs (gs[i := disarm (gs ! i)]) = {p \<in> slot_regs gs. fst p \<noteq> e_fd (gs ! i)}"
proof (rule set_eqI)
  fix p :: "int \<times> int"
  show "p \<in> slot_regs (gs[i := disarm (gs ! i)]) \<longleftrightarrow> p \<in> {p \<in> slot_regs gs. fst p \<noteq> e_fd (gs ! i)}"
    using assms unfolding one_each_def
    by (cases p) (auto simp: slot_regs_def nth_list_update free_slot_def)
qed

text \<open>Setting and adding a free slot arms it.\<close>

lemma set_add_run:
  assumes "i < length gs"
  shows "eventadd k efd m i (eventset i fd cb i gs) =
    bnd (sys k (CEpollCtl efd CtlAdd fd m (int i))) (\<lambda>_. pure (gs[i := armed m cb i fd (gs ! i)]))"
  using assms by (simp add: eventadd_def eventset_def armed_def Let_def)

lemma tracked_add:
  assumes t: "tracked efd gs h" and i: "i < 1025" and f: "free_slot (gs ! i)"
    and new: "fd \<notin> keys_of free_slot e_fd gs" and m: "m = EPOLLIN \<or> m = EPOLLOUT"
    and cb: "slot_for i fd cb h" and r: "ret r = 0 \<or> ret r = -1"
  shows "tracked efd (gs[i := armed m cb i fd (gs ! i)]) ((CEpollCtl efd CtlAdd fd m (int i), r) # h)"
proof -
  have l: "length gs = 1025" using t by (simp add: tracked_def slots_ok_nth)
  have "slots_ok (gs[i := armed m cb i fd (gs ! i)])"
    using t by (intro slots_ok_upd) (auto simp: tracked_def)
  moreover have "one_each free_slot e_fd (gs[i := armed m cb i fd (gs ! i)])"
    using t i l new by (intro ev.fill_one_each) (auto simp: tracked_def)
  moreover have "conn_slots (gs[i := armed m cb i fd (gs ! i)]) ((CEpollCtl efd CtlAdd fd m (int i), r) # h)"
    using t cb i l by (intro conn_slots_arm[where h = h]) (auto simp: tracked_def)
  ultimately show ?thesis
    using t i l f m r by (auto simp: tracked_def slot_regs_arm nth_list_update)
qed

lemma tracked_del:
  assumes t: "tracked efd gs h" and i: "i < 1025" and s: "e_status (gs ! i) = 1"
    and r: "ret r = 0 \<or> e_fd (gs ! i) \<notin> watched efd h"
  shows "tracked efd (gs[i := disarm (gs ! i)]) ((CEpollCtl efd CtlDel (e_fd (gs ! i)) 0 0, r) # h)"
    and "e_fd (gs ! i) \<notin> keys_of free_slot e_fd (gs[i := disarm (gs ! i)])"
    and "free_slot (gs[i := disarm (gs ! i)] ! i)"
proof -
  have l: "length gs = 1025" using t by (simp add: tracked_def slots_ok_nth)
  have f: "\<not> free_slot (gs ! i)" using s by (simp add: free_slot_def)
  have "slots_ok (gs[i := disarm (gs ! i)])"
    using t i by (intro slots_ok_upd) (auto simp: tracked_def slots_ok_nth)
  moreover have "one_each free_slot e_fd (gs[i := disarm (gs ! i)])"
    using t ev.clear_one_each by (simp add: tracked_def)
  moreover have "conn_slots (gs[i := disarm (gs ! i)]) ((CEpollCtl efd CtlDel (e_fd (gs ! i)) 0 0, r) # h)"
    using t l i by (intro conn_slots_disarm[where h = h]) (auto simp: tracked_def)
  moreover have "regs efd ((CEpollCtl efd CtlDel (e_fd (gs ! i)) 0 0, r) # h) = {p \<in> regs efd h. fst p \<noteq> e_fd (gs ! i)}"
    using r by (auto simp: watched_regs image_iff)
  ultimately show "tracked efd (gs[i := disarm (gs ! i)]) ((CEpollCtl efd CtlDel (e_fd (gs ! i)) 0 0, r) # h)"
    using t i l f by (auto simp: tracked_def slot_regs_disarm nth_list_update simp del: regs.simps)
  show "e_fd (gs ! i) \<notin> keys_of free_slot e_fd (gs[i := disarm (gs ! i)])"
    using t i l f ev.clear_keys[of gs i] by (simp add: tracked_def)
  show "free_slot (gs[i := disarm (gs ! i)] ! i)"
    using i l by (simp add: free_slot_def)
qed

lemma tracked_quiet:
  assumes "tracked efd gs h" and "(\<forall>e op fd m d. c \<noteq> CEpollCtl e op fd m d) \<and> (\<forall>fd. c \<noteq> CClose fd)"
  shows "tracked efd gs ((c, r) # h)"
  using assms by (cases c) (auto simp: tracked_def conn_slots_def)

lemma tracked_close:
  assumes "tracked efd gs h" and "fd \<notin> keys_of free_slot e_fd gs"
  shows "tracked efd gs ((CClose fd, r) # h)"
proof -
  have "{p \<in> regs efd h. fst p \<noteq> fd} = regs efd h"
    using assms slot_regs_keys[of gs] by (force simp: tracked_def image_iff)
  moreover have "e_fd (gs ! j) \<noteq> fd" if "j < 1024" "\<not> free_slot (gs ! j)" for j
  proof
    assume "e_fd (gs ! j) = fd"
    moreover have "j < length gs" using assms(1) that(1) by (simp add: tracked_def slots_ok_nth)
    ultimately show False using assms(2) that(2) unfolding keys_of_iff by blast
  qed
  then have "conn_slots gs ((CClose fd, r) # h)"
    using assms(1) by (auto simp: tracked_def conn_slots_def)
  ultimately show ?thesis using assms(1) by (simp add: tracked_def)
qed

lemma conn_keys:
  assumes "tracked efd gs h"
  shows "keys_of free_slot e_fd gs \<subseteq> insert (e_fd (gs ! 1024)) (open_conns h)"
proof
  fix v assume "v \<in> keys_of free_slot e_fd gs"
  moreover have "length gs = 1025" using assms by (simp add: tracked_def slots_ok_nth)
  ultimately obtain j where j: "j < 1025" "\<not> free_slot (gs ! j)" "e_fd (gs ! j) = v" unfolding keys_of_iff by auto
  then have "j = 1024 \<or> j < 1024" by linarith
  then show "v \<in> insert (e_fd (gs ! 1024)) (open_conns h)"
    using assms j by (auto simp: tracked_def conn_slots_def)
qed

text \<open>What a slot holds besides the fields of a registration does not matter.\<close>

lemma tracked_buf:
  assumes "tracked efd gs h" and "i < 1025"
  shows "tracked efd (gs[i := (gs ! i)\<lparr>e_buf := b\<rparr>]) h"
proof -
  have l: "length gs = 1025" using assms by (simp add: tracked_def slots_ok_nth)
  have "slots_ok (gs[i := (gs ! i)\<lparr>e_buf := b\<rparr>])"
    using assms by (intro slots_ok_upd) (auto simp: tracked_def slots_ok_nth)
  moreover have "slot_regs (gs[i := (gs ! i)\<lparr>e_buf := b\<rparr>]) = slot_regs gs"
    using assms l by (auto simp: slot_regs_def nth_list_update free_slot_def)
  moreover have "one_each free_slot e_fd (gs[i := (gs ! i)\<lparr>e_buf := b\<rparr>])"
    using assms l unfolding tracked_def one_each_def by (auto simp: nth_list_update free_slot_def)
  moreover have "conn_slots (gs[i := (gs ! i)\<lparr>e_buf := b\<rparr>]) h"
    using assms l by (auto simp: tracked_def conn_slots_def nth_list_update free_slot_def)
  ultimately show ?thesis
    using assms l by (auto simp: tracked_def nth_list_update)
qed

section \<open>Callbacks\<close>

text \<open>
  After a callback on slot \<open>i\<close> the table is tracked, the other armed slots are still
  armed, and slot \<open>i\<close> is armed again or waits for what it waited for before.
\<close>

definition after_call :: "int \<Rightarrow> nat \<Rightarrow> myevent list \<Rightarrow> myevent list \<Rightarrow> history \<Rightarrow> bool" where
  "after_call efd i gs gs' h \<longleftrightarrow> tracked efd gs' h \<and>
     (\<forall>j < 1025. j \<noteq> i \<longrightarrow> e_status (gs ! j) = 1 \<longrightarrow> e_status (gs' ! j) = 1) \<and>
     (e_status (gs' ! i) = 1 \<or> e_events (gs' ! i) = e_events (gs ! i))"

lemma eventdel_run:
  assumes "e_status (gs ! i) = 1" and "i < length gs"
  shows "eventdel k efd i gs =
    bnd (sys k (CEpollCtl efd CtlDel (e_fd (gs ! i)) 0 0)) (\<lambda>_. pure (gs[i := disarm (gs ! i)]))"
  using assms by (simp add: eventdel_def disarm_def Let_def)

lemma wp_set_add:
  assumes "epoll_kernel k" and "tracked efd gs h" and "i < 1025" and "free_slot (gs ! i)"
    and "fd \<notin> keys_of free_slot e_fd gs" and "m = EPOLLIN \<or> m = EPOLLOUT" and "slot_for i fd cb h"
  shows "wp (eventadd k efd m i (eventset i fd cb i gs))
    (\<lambda>gs' h'. tracked efd gs' h' \<and> gs' = gs[i := armed m cb i fd (gs ! i)]) any_stop h"
proof -
  have "i < length gs" using assms(2,3) by (simp add: tracked_def slots_ok_nth)
  then show ?thesis
    using tracked_add[OF assms(2-7) epoll_kernelD(3)[OF assms(1)]] by (simp add: set_add_run wp_simps)
qed

text \<open>
  Taking a slot out, after its buffer changed, leaves a free slot with its descriptor.
\<close>

lemma taken_out:
  fixes b :: bytes
  assumes k: "epoll_kernel k" and t: "tracked efd gs h" and i: "i < 1025" and s: "e_status (gs ! i) = 1"
  defines "g2 \<equiv> gs[i := disarm ((gs ! i)\<lparr>e_buf := b\<rparr>)]" and "c \<equiv> CEpollCtl efd CtlDel (e_fd (gs ! i)) 0 0"
  shows "eventdel k efd i (gs[i := (gs ! i)\<lparr>e_buf := b\<rparr>]) = bnd (sys k c) (\<lambda>_. pure g2)"
    and "tracked efd g2 ((c, k h c) # h)" and "free_slot (g2 ! i)"
    and "e_fd (gs ! i) \<notin> keys_of free_slot e_fd g2" and "e_fd (g2 ! i) = e_fd (gs ! i)"
proof -
  have l: "length gs = 1025" using t by (simp add: tracked_def slots_ok_nth)
  let ?g1 = "gs[i := (gs ! i)\<lparr>e_buf := b\<rparr>]"
  have t1: "tracked efd ?g1 h" by (rule tracked_buf[OF t i])
  have g2: "?g1[i := disarm (?g1 ! i)] = g2" and fd: "e_fd (?g1 ! i) = e_fd (gs ! i)"
    and s1: "e_status (?g1 ! i) = 1"
    using i l s by (simp_all add: g2_def)
  have del: "ret (k h c) = 0 \<or> e_fd (?g1 ! i) \<notin> watched efd h"
    using epoll_kernelD(4)[OF k] unfolding c_def fd by blast
  note d = tracked_del[OF t1 i s1 del, unfolded g2 fd]
  show "tracked efd g2 ((c, k h c) # h)" "free_slot (g2 ! i)" "e_fd (gs ! i) \<notin> keys_of free_slot e_fd g2"
    using d unfolding c_def by blast+
  show "eventdel k efd i ?g1 = bnd (sys k c) (\<lambda>_. pure g2)"
    using eventdel_run[OF s1, of k efd] i l unfolding g2 fd c_def by simp
  show "e_fd (g2 ! i) = e_fd (gs ! i)" using i l by (simp add: g2_def)
qed

lemma conn_slot_again:
  assumes "tracked efd gs h" and "i < 1025" and "e_status (gs ! i) = 1" and "e_call (gs ! i) \<notin> {NoCall, CallAccept}"
  shows "i \<noteq> 1024 \<and> e_fd (gs ! i) \<in> open_conns h"
  using assms by (cases "i = 1024") (auto simp: tracked_def conn_slots_def free_slot_def)

lemma eventset_over: "eventset i fd cb a (gs[i := x]) = eventset i fd cb a gs"
  by (simp add: eventset_def)

lemma after_recvdata:
  assumes k: "epoll_kernel k" and t: "tracked efd gs h" and i: "i < 1025" and s: "e_status (gs ! i) = 1"
    and cb: "e_call (gs ! i) = CallRecv"
  shows "wp (recvdata k efd (e_fd (gs ! i)) i gs) (after_call efd i gs) any_stop h"
proof -
  let ?fd = "e_fd (gs ! i)"
  let ?c = "CRecv ?fd 4096 False"
  let ?r = "k h ?c"
  let ?h1 = "(?c, ?r) # h"
  let ?b = "dat ?r @ drop (length (dat ?r)) (e_buf (gs ! i))"
  have l: "length gs = 1025" using t by (simp add: tracked_def slots_ok_nth)
  have t1: "tracked efd gs ?h1" using t by (intro tracked_quiet) auto
  note out = taken_out[OF k t1 i s, where b = ?b]
  let ?g2 = "gs[i := disarm ((gs ! i)\<lparr>e_buf := ?b\<rparr>)]"
  have rearm: "wp (eventadd k efd EPOLLOUT i (eventset i ?fd CallSend i ?g2)) (after_call efd i gs) any_stop h'"
    if "tracked efd ?g2 h'" "slot_for i ?fd CallSend h'" for h'
    using i l that(2) by (intro wp_mono[OF wp_set_add[OF k that(1) i out(3,4)]]) (auto simp: after_call_def)
  have closed: "after_call efd i gs ?g2 ((CClose ?fd, r) # h')" if "tracked efd ?g2 h'" for r h'
    using tracked_close[OF that out(4)] i l by (simp add: after_call_def)
  have again: "i \<noteq> 1024" "?fd \<in> open_conns h" using conn_slot_again[OF t i s] cb by simp_all
  show ?thesis
    using out(1,2,5) rearm[OF out(2)] closed[OF out(2)] i l again
    by (simp add: recvdata_def Let_def wp_simps eventset_over slot_for_def)
qed

lemma after_senddata:
  assumes k: "epoll_kernel k" and t: "tracked efd gs h" and i: "i < 1025" and s: "e_status (gs ! i) = 1"
    and cb: "e_call (gs ! i) = CallSend"
  shows "wp (senddata k efd (e_fd (gs ! i)) i gs) (after_call efd i gs) any_stop h"
proof -
  let ?fd = "e_fd (gs ! i)"
  let ?c = "CSend ?fd (take (nat (e_len (gs ! i))) (e_buf (gs ! i)))"
  have l: "length gs = 1025" using t by (simp add: tracked_def slots_ok_nth)
  have t1: "tracked efd gs ((?c, k h ?c) # h)" using t by (intro tracked_quiet) auto
  note out = taken_out[OF k t1 i s, where b = "e_buf (gs ! i)"]
  have same: "(gs ! i)\<lparr>e_buf := e_buf (gs ! i)\<rparr> = gs ! i" by simp
  let ?g2 = "gs[i := disarm (gs ! i)]"
  have rearm: "wp (eventadd k efd EPOLLIN i (eventset i ?fd CallRecv i ?g2)) (after_call efd i gs) any_stop h'"
    if "tracked efd ?g2 h'" "slot_for i ?fd CallRecv h'" for h'
    using i l that(2) by (intro wp_mono[OF wp_set_add[OF k that(1) i out(3,4)[unfolded same]]]) (auto simp: after_call_def)
  have closed: "after_call efd i gs ?g2 ((CClose ?fd, r) # h')" if "tracked efd ?g2 h'" for r h'
    using tracked_close[OF that out(4)[unfolded same]] i l by (simp add: after_call_def)
  note o = out[unfolded same list_update_id]
  have again: "i \<noteq> 1024" "?fd \<in> open_conns h" using conn_slot_again[OF t i s] cb by simp_all
  show ?thesis
    using o(1,2,5) rearm[OF o(2)] closed[OF o(2)] again
    by (simp add: senddata_def Let_def wp_simps slot_for_def)
qed

lemma after_acceptconn:
  assumes k: "epoll_kernel k" and t: "tracked efd gs h" and i: "i < 1025" and s: "e_status (gs ! i) = 1"
    and cb: "e_call (gs ! i) = CallAccept"
  shows "wp (acceptconn k efd (e_fd (gs ! i)) gs) (after_call efd i gs) any_stop h"
proof -
  let ?l = "e_fd (gs ! i)"
  let ?n = "scan free_slot gs 0 1024"
  let ?r = "k h (CAccept ?l)"
  let ?h1 = "(CAccept ?l, ?r) # h"
  let ?h2 = "(CSetNonblock (ret ?r), k ?h1 (CSetNonblock (ret ?r))) # ?h1"
  have l: "length gs = 1025" using t by (simp add: tracked_def slots_ok_nth)
  have t1: "tracked efd gs ?h1" by (rule tracked_quiet[OF t]) auto
  have t2: "tracked efd gs ?h2" by (rule tracked_quiet[OF t1]) auto
  have stay: "after_call efd i gs gs h'" if "tracked efd gs h'" for h' using that by (simp add: after_call_def)
  have add: "wp (eventadd k efd EPOLLIN ?n (eventset ?n (ret ?r) CallRecv ?n gs)) (after_call efd i gs) any_stop ?h2"
    if "?n \<noteq> 1024" and "\<not> ret (k ?h1 (CSetNonblock (ret ?r))) < 0"
  proof -
    have n: "?n < 1024" using that(1) scan_bounds[of 0 free_slot gs 1024] by simp
    then have f: "free_slot (gs ! ?n)" using scan_found[of free_slot gs 0 1024] by simp
    then have ni: "?n \<noteq> i" using s by (auto simp: free_slot_def)
    have "ret ?r \<noteq> -1" using that(2) epoll_kernelD(5)[OF k, of ?h1] by auto
    then have r: "0 \<le> ret ?r" "ret ?r \<notin> open_conns h" "ret ?r \<noteq> ?l"
      using epoll_kernelD(1,2)[OF k, of h ?l] by (auto simp: fresh_fd_def)
    have "\<not> i < 1024" using t cb by (auto simp: tracked_def conn_slots_def)
    then have "i = 1024" using i by simp
    then have new: "ret ?r \<notin> keys_of free_slot e_fd gs"
      using r conn_keys[OF t] by auto
    have "slot_for ?n (ret ?r) CallRecv ?h2" using n r(1) by (simp add: slot_for_def)
    then show ?thesis
      using n l ni by (intro wp_mono[OF wp_set_add[OF k t2 _ f new]]) (auto simp: after_call_def nth_list_update)
  qed
  show ?thesis
    using add stay[OF t1] stay[OF t2] by (simp add: acceptconn_def Let_def wp_simps)
qed

lemma after_call_back:
  assumes "epoll_kernel k" and "tracked efd gs h" and "i < 1025" and "e_status (gs ! i) = 1"
  shows "wp (call_back k efd i gs) (after_call efd i gs) any_stop h"
  using assms slots_ok_nth(2)[of gs i] after_recvdata[OF assms] after_senddata[OF assms] after_acceptconn[OF assms]
  by (auto simp: call_back_def Let_def wp_simps tracked_def split: callback.split)

section \<open>The loop\<close>

text \<open>While a round runs, the slots of the events that are left are armed.\<close>

definition pending :: "int \<Rightarrow> (int \<times> 32 word) list \<Rightarrow> myevent list \<Rightarrow> history \<Rightarrow> bool" where
  "pending efd es gs h \<longleftrightarrow> tracked efd gs h \<and> distinct (map fst es) \<and>
     (\<forall>d \<in> fst ` set es. \<exists>i < 1025. d = int i \<and> e_status (gs ! i) = 1)"

lemma after_react_event:
  assumes k: "epoll_kernel k" and p: "pending efd (e # es) gs h"
  shows "wp (react_event k efd e gs) (pending efd es) any_stop h"
proof -
  obtain i where i: "fst e = int i" "i < 1025" "e_status (gs ! i) = 1" and t: "tracked efd gs h"
    using p by (auto simp: pending_def)
  have l: "length gs' = 1025" if "tracked efd gs' h'" for gs' h' using that by (simp add: tracked_def slots_ok_nth)
  have rest: "pending efd es gs' h'" if "tracked efd gs' h'"
    "\<forall>j < 1025. j \<noteq> i \<longrightarrow> e_status (gs ! j) = 1 \<longrightarrow> e_status (gs' ! j) = 1" for gs' h'
    using p i that by (fastforce simp: pending_def image_iff)
  let ?in = "snd e AND EPOLLIN \<noteq> 0 \<and> e_events (gs ! i) AND EPOLLIN \<noteq> 0"
  have first: "wp (if ?in then call_back k efd i gs else pure gs)
      (\<lambda>gs' h'. after_call efd i gs gs' h' \<and> (e_events (gs' ! i) AND EPOLLOUT \<noteq> 0 \<longrightarrow> e_status (gs' ! i) = 1)) any_stop h"
  proof (cases ?in)
    case True
    have "e_events (gs ! i) AND EPOLLOUT = 0"
    proof -
      have "e_events (gs ! i) = 0 \<or> e_events (gs ! i) = 1 \<or> e_events (gs ! i) = 4"
        using t i(2) by (simp add: tracked_def)
      then show ?thesis using True by auto
    qed
    then show ?thesis
      using True by (auto simp: after_call_def elim!: wp_mono intro!: wp_mono[OF after_call_back[OF k t i(2,3)]])
  next
    case False
    show ?thesis unfolding if_not_P[OF False] using t i by (simp add: wp_simps after_call_def)
  qed
  have second: "wp (if snd e AND EPOLLOUT \<noteq> 0 \<and> e_events (gs' ! i) AND EPOLLOUT \<noteq> 0
      then call_back k efd i gs' else pure gs') (pending efd es) any_stop h'"
    if a: "after_call efd i gs gs' h'" and s: "e_events (gs' ! i) AND EPOLLOUT \<noteq> 0 \<longrightarrow> e_status (gs' ! i) = 1" for gs' h'
  proof (cases "snd e AND EPOLLOUT \<noteq> 0 \<and> e_events (gs' ! i) AND EPOLLOUT \<noteq> 0")
    case True
    have t': "tracked efd gs' h'" and s': "e_status (gs' ! i) = 1" using a s True by (auto simp: after_call_def)
    show ?thesis
      unfolding if_P[OF True]
      by (rule wp_mono[OF after_call_back[OF k t' i(2) s']]) (use a in \<open>auto simp: after_call_def intro!: rest\<close>)
  next
    case False
    show ?thesis unfolding if_not_P[OF False] wp_pure using a by (auto simp: after_call_def intro!: rest)
  qed
  have eq: "react_event k efd e gs = bnd (if ?in then call_back k efd i gs else pure gs) (\<lambda>gs.
      if snd e AND EPOLLOUT \<noteq> 0 \<and> e_events (gs ! i) AND EPOLLOUT \<noteq> 0 then call_back k efd i gs else pure gs)"
    using i l[OF t] by (simp add: react_event_def Let_def)
  show ?thesis
    unfolding eq wp_bnd by (rule wp_mono[OF first]) (use second in auto)
qed

lemma tracked_round:
  assumes k: "epoll_kernel k" and t: "tracked efd gs h"
  shows "wp (react_round k efd gs) (tracked efd) any_stop h"
proof -
  let ?c = "CEpollWait efd 1025 1000"
  let ?es = "take (nat (ret (k h ?c))) (evs (k h ?c))"
  note K = epoll_kernelD(6,7)[OF k, where h = h and efd = efd and n = 1025 and t = 1000]
  have "inj_on snd (slot_regs gs)" by (auto simp: slot_regs_def inj_on_def)
  then have "inj_on snd (regs efd h)" using t by (auto simp: tracked_def intro: inj_on_subset)
  then have "distinct (map fst ?es)" using K(1) by (simp add: distinct_take take_map [symmetric])
  moreover have "\<exists>i < 1025. d = int i \<and> e_status (gs ! i) = 1" if d: "d \<in> fst ` set ?es" for d
  proof -
    have "d \<in> snd ` regs efd h" using d K(2) by (meson image_mono set_take_subset subsetD)
    moreover have "regs efd h \<subseteq> slot_regs gs" using t by (simp add: tracked_def)
    ultimately have "d \<in> snd ` slot_regs gs" by blast
    then obtain i where i: "i < length gs" "d = int i" "\<not> free_slot (gs ! i)"
      by (auto simp: slot_regs_def)
    then show ?thesis using t by (intro exI[of _ i]) (auto simp: tracked_def free_slot_def slots_ok_nth)
  qed
  moreover have "tracked efd gs ((?c, k h ?c) # h)" by (rule tracked_quiet[OF t]) auto
  ultimately have "pending efd ?es gs ((?c, k h ?c) # h)" by (simp add: pending_def)
  then have "wp (for_io ?es (react_event k efd) gs) (pending efd []) any_stop ((?c, k h ?c) # h)"
    by (intro wp_for_io_rest) (auto intro: after_react_event[OF k])
  then have "wp (for_io ?es (react_event k efd) gs) (tracked efd) any_stop ((?c, k h ?c) # h)"
    by (rule wp_mono) (auto simp: pending_def)
  then show ?thesis by (simp add: react_round_def wp_simps)
qed

lemma no_slots: "slot_regs g_events = {}" "keys_of free_slot e_fd g_events = {}" "one_each free_slot e_fd g_events"
  by (auto simp: slot_regs_def keys_of_def one_each_def g_events_def zero_event_def free_slot_def)

lemma tracked_start: "tracked efd g_events []" "regs efd [] = {}"
  by (auto simp: tracked_def conn_slots_def no_slots slots_ok_def) (auto simp: g_events_def zero_event_def free_slot_def)

lemma tracked_main:
  assumes k: "epoll_kernel k"
  shows "wp (reactor_main rounds k) (tracked (ret (k [] (CEpollCreate 1025)))) any_stop []"
proof -
  have free: "free_slot (g_events ! 1024)" by (simp add: g_events_def zero_event_def free_slot_def)
  have init: "wp (initlistensocket k efd g_events) (tracked efd) any_stop h" if "tracked efd g_events h" for efd h
  proof -
    have "wp (eventadd k efd EPOLLIN 1024 (eventset 1024 fd CallAccept 1024 g_events)) (tracked efd) any_stop h'"
      if "tracked efd g_events h'" for fd h'
      using free by (intro wp_mono[OF wp_set_add[OF k that]]) (auto simp: no_slots slot_for_def)
    moreover have "tracked efd g_events ((c, r) # h')"
      if "tracked efd g_events h'" "(\<forall>e op fd m d. c \<noteq> CEpollCtl e op fd m d) \<and> (\<forall>fd. c \<noteq> CClose fd)" for c r h'
      using tracked_quiet[OF that] .
    ultimately show ?thesis
      using that by (auto simp: initlistensocket_def wrapper_defs wp_simps)
  qed
  have loop: "wp (times rounds (react_round k efd) gs) (tracked efd) any_stop h" if "tracked efd gs h" for efd gs h
    by (rule wp_times[where I = "tracked efd"]) (use that tracked_round[OF k] in auto)
  have "tracked efd g_events [(CEpollCreate n, r)]" for efd n r
    by (rule tracked_quiet[OF tracked_start(1)]) auto
  then show ?thesis
    unfolding reactor_main_def Let_def wp_bnd wp_sys
    by (intro wp_mono[OF init]) (use loop in auto)
qed

end
