(* ===== verification/Reactor_Claims.thy ===== *)
theory Reactor_Claims
  imports Reactor_Watch
begin

text \<open>The properties of the reactor of \<^verbatim>\<open>epoll_et/server3.c\<close>.\<close>

text \<open>
  C13. The reactor never sends a byte: whatever the kernel answers and however long it runs,
  every send it makes has an empty payload, because eventset clears the slot's buffer and
  length before the slot waits to be writable. Nor does it ever use an uninitialised epoll
  operation: eventadd is only called on slots whose status is 0.
\<close>
theorem reactor_never_echoes:
  assumes "reactor_main rounds k [] = (res, h)"
  shows "{b. \<exists>fd r. (CSend fd b, r) \<in> set h} \<subseteq> {[]} \<and> res \<noteq> Inl (Undef UninitUse)"
proof -
  have "silent h \<and> res \<noteq> Inl (Undef UninitUse)"
    using idle_main[of rounds k] assms by (auto simp: wp_def idle_def split: sum.splits)
  then show ?thesis by (auto simp: silent_def)
qed

text \<open>
  A kernel on which the connection 7 is accepted, sends two bytes and is writable: round by
  round, the listening slot, then slot 0 readable, then slot 0 writable.
\<close>

definition reactor_demo :: kernel where
  "reactor_demo h c =
     (case c of
        CSocket d t p \<Rightarrow> mk_ret 4
      | CEpollCreate n \<Rightarrow> mk_ret 3
      | CAccept l \<Rightarrow> mk_ret (if fresh_fd h 7 \<and> l \<noteq> 7 then 7 else -1)
      | CSetNonblock fd \<Rightarrow> mk_ret (if fd < 0 then -1 else 0)
      | CRecv fd n pk \<Rightarrow> mk_ret 2\<lparr>dat := ''hi''\<rparr>
      | CSend fd b \<Rightarrow> mk_ret (int (length b))
      | CEpollWait e n t \<Rightarrow>
          mk_ret 1\<lparr>evs := (if (7, 0) \<in> regs e h then [(0, 5)] else if (4, 1024) \<in> regs e h then [(1024, 1)] else [])\<rparr>
      | COpen f \<Rightarrow> mk_ret (-1)
      | _ \<Rightarrow> mk_ret 0)"

lemmas reactor_run_simps = reactor_main_def initlistensocket_def react_round_def react_event_def call_back_def
  acceptconn_def recvdata_def senddata_def eventadd_def eventdel_def eventset_def wrapper_defs Let_def io_simps
  reactor_demo_def g_events_def zero_event_def free_slot_def scan_numeral fresh_fd_def

lemma reactor_demo_run:
  "\<exists>gs h. reactor_main (Suc (Suc 0)) reactor_demo [] = (Inr gs, h) \<and> (CSend 7 [], mk_ret 0) \<in> set h"
  by (simp add: reactor_run_simps)

lemma reactor_demo_round:
  "\<exists>gs h. reactor_main (Suc 0) reactor_demo [] = (Inr gs, h) \<and> failed_adds 3 h = {} \<and> regs 3 h = {(4, 1024), (7, 0)}"
  by (simp add: reactor_run_simps insert_commute)

theorem reactor_never_echoes_witness:
  "\<exists>gs h. reactor_main (Suc (Suc 0)) reactor_demo [] = (Inr gs, h) \<and>
    (CSend 7 [], mk_ret 0) \<in> set h \<and> {b. \<exists>fd r. (CSend fd b, r) \<in> set h} \<subseteq> {[]}"
proof -
  obtain gs h where h: "reactor_main (Suc (Suc 0)) reactor_demo [] = (Inr gs, h)" "(CSend 7 [], mk_ret 0) \<in> set h"
    using reactor_demo_run by blast
  with reactor_never_echoes[OF h(1)] show ?thesis by blast
qed

text \<open>
  C6. On a kernel that behaves, where registering may fail, after every number of rounds each registration of the epoll
  instance is that of a slot whose status is 1, with the slot's own index as the datum, and
  no two of these slots have the same descriptor: no closed connection stays registered, and no
  event can reach a slot that was given up. Conversely each slot whose status is 1 is registered, unless
  epoll_ctl refused to add it.
\<close>
theorem reactor_registrations:
  assumes "epoll_kernel k" and "reactor_main rounds k [] = (Inr gs, h)" and "efd = ret (k [] (CEpollCreate 1025))"
  shows "regs efd h \<subseteq> {(e_fd (gs ! i), int i) | i. i < 1025 \<and> e_status (gs ! i) = 1} \<and>
    {(e_fd (gs ! i), int i) | i. i < 1025 \<and> e_status (gs ! i) = 1} \<subseteq> regs efd h \<union> failed_adds efd h \<and>
    inj_on (\<lambda>i. e_fd (gs ! i)) {i. i < 1025 \<and> e_status (gs ! i) = 1}"
proof -
  have t: "tracked efd gs h"
    using wp_InrD[OF tracked_main[OF assms(1)] assms(2)] assms(3) by simp
  have st: "i < 1025 \<Longrightarrow> (\<not> free_slot (gs ! i)) = (e_status (gs ! i) = 1)" for i
    using t by (force simp: tracked_def free_slot_def)
  have slots: "slot_regs gs = {(e_fd (gs ! i), int i) | i. i < 1025 \<and> e_status (gs ! i) = 1}"
    using t st by (auto simp: tracked_def slot_regs_def slots_ok_nth)
  have "inj_on (\<lambda>i. e_fd (gs ! i)) {i. i < 1025 \<and> e_status (gs ! i) = 1}"
    using t st by (auto simp: tracked_def one_each_def slots_ok_nth intro!: inj_onI)
  with t show ?thesis unfolding slots[symmetric] by (simp add: tracked_def)
qed

lemma reactor_demo_wait: "fst ` set (evs (reactor_demo h (CEpollWait e n t))) \<subseteq> snd ` regs e h"
proof -
  have "(7, 0) \<in> regs e h \<Longrightarrow> 0 \<in> snd ` regs e h" "(4, 1024) \<in> regs e h \<Longrightarrow> 1024 \<in> snd ` regs e h"
    by force+
  then show ?thesis by (cases "(7, 0) \<in> regs e h"; cases "(4, 1024) \<in> regs e h") (simp_all add: reactor_demo_def)
qed

text \<open>The same kernel when it has no room to register the connection 7.\<close>

definition reactor_full :: kernel where
  "reactor_full h c =
     (case c of CEpollCtl e ctl fd m d \<Rightarrow> mk_ret (if ctl = CtlAdd \<and> fd = 7 then -1 else 0) | _ \<Rightarrow> reactor_demo h c)"

lemma reactor_kernels_behave: "epoll_kernel reactor_demo" "epoll_kernel reactor_full"
  using reactor_demo_wait
  by (auto simp: epoll_kernel_def kernel_fds_def accept_fresh_def reactor_full_def)
    (auto simp: reactor_demo_def fresh_fd_def split: if_splits)

theorem reactor_registrations_witness:
  "\<exists>gs h. reactor_main (Suc 0) reactor_demo [] = (Inr gs, h) \<and>
    regs 3 h = {(e_fd (gs ! i), int i) | i. i < 1025 \<and> e_status (gs ! i) = 1} \<and> regs 3 h = {(4, 1024), (7, 0)}"
proof -
  obtain gs h where run: "reactor_main (Suc 0) reactor_demo [] = (Inr gs, h)" "failed_adds 3 h = {}" "regs 3 h = {(4, 1024), (7, 0)}"
    using reactor_demo_round by blast
  have "3 = ret (reactor_demo [] (CEpollCreate 1025))" by (simp add: reactor_demo_def)
  from reactor_registrations[OF reactor_kernels_behave(1) run(1) this] run show ?thesis by auto
qed

text \<open>
  A connection whose registration is refused keeps its slot: the slot's status is 1, the connection is
  open, and no event of it can ever be reported.
\<close>
theorem reactor_refused_connection:
  "\<exists>gs h. reactor_main (Suc (Suc 0)) reactor_full [] = (Inr gs, h) \<and>
    e_status (gs ! 0) = 1 \<and> e_fd (gs ! 0) = 7 \<and> 7 \<in> open_conns h \<and> regs 3 h = {(4, 1024)}"
  by (simp add: reactor_run_simps reactor_full_def)

text \<open>
  Receiving as many bytes as the buffer holds (4096) makes recvdata write the terminator
  one past the end of the slot's buffer.
\<close>
theorem recvdata_full_buffer:
  assumes "ret (k h (CRecv fd 4096 False)) = 4096"
  shows "fst (recvdata k efd fd i gs h) = Inl (Undef OutOfBounds)"
  using assms by (simp add: recvdata_def Let_def eventdel_def io_simps)

theorem recvdata_full_buffer_witness:
  "fst (recvdata (\<lambda>_ _. mk_ret 4096\<lparr>dat := replicate 4096 CHR ''x''\<rparr>) 3 7 0 g_events []) = Inl (Undef OutOfBounds)"
  by (rule recvdata_full_buffer) simp

text \<open>
  A connection accepted while all 1024 slots are in use is neither registered nor closed:
  acceptconn only makes the accept call and leaves the slots as they are.
\<close>
theorem acceptconn_full_table:
  assumes "\<forall>i < 1024. e_status (gs ! i) = 1"
  shows "acceptconn k efd lfd gs h = (Inr gs, (CAccept lfd, k h (CAccept lfd)) # h)"
proof -
  have "scan free_slot gs 0 1024 = 0 + 1024"
    unfolding scan_none using assms by (simp add: free_slot_def)
  then show ?thesis by (simp add: acceptconn_def Let_def io_simps)
qed

theorem acceptconn_full_table_witness:
  "acceptconn reactor_demo 3 4 (replicate 1025 (zero_event\<lparr>e_status := 1\<rparr>)) [] =
    (Inr (replicate 1025 (zero_event\<lparr>e_status := 1\<rparr>)), [(CAccept 4, mk_ret 7)])"
proof -
  have "\<forall>i < 1024. e_status (replicate 1025 (zero_event\<lparr>e_status := 1\<rparr>) ! i) = 1" by simp
  from acceptconn_full_table[OF this] show ?thesis by (simp add: reactor_demo_def fresh_fd_def)
qed

end
