(* ===== verification/Epoll_Servers.thy ===== *)
theory Epoll_Servers
  imports Wrappers
begin

text \<open>
  The epoll servers \<^verbatim>\<open>epoll/server.c\<close> (level triggered, 1024 bytes a read) and
  \<^verbatim>\<open>epoll_et/server2.c\<close> (edge triggered, 3 bytes a read), which are the same
  program but for these two numbers, and the pipe demonstration
  \<^verbatim>\<open>epoll_et/server.c\<close>. They print on the standard output what they read.
\<close>

section \<open>The servers\<close>

text \<open>\<open>sz\<close> is the size given to \<^verbatim>\<open>Read\<close>, \<open>m\<close> the mask of a new connection.\<close>

definition ep_accept :: "32 word \<Rightarrow> kernel \<Rightarrow> int \<Rightarrow> int \<Rightarrow> unit io" where
  "ep_accept m k fd efd =
     bnd (Accept k fd) (\<lambda>connectfd.
     bnd (sys k (CEpollCtl efd CtlAdd connectfd m connectfd)) (\<lambda>r.
     if ret r = -1 then sys_err else pure ()))"

definition ep_read :: "nat \<Rightarrow> kernel \<Rightarrow> int \<Rightarrow> int \<Rightarrow> unit io" where
  "ep_read sz k efd sofd =
     bnd (Read k sofd sz) (\<lambda>r.
     bnd (if ret r = 0
          then bnd (sys k (CEpollCtl efd CtlDel sofd 0 0)) (\<lambda>_. bnd (sys k (CClose sofd)) (\<lambda>_. pure ()))
          else pure ()) (\<lambda>_.
     bnd (sys k (CWrite STDOUT_FILENO (take (nat (ret r)) (dat r)))) (\<lambda>_. pure ())))"

definition ep_event :: "nat \<Rightarrow> 32 word \<Rightarrow> kernel \<Rightarrow> int \<Rightarrow> int \<Rightarrow> int \<times> 32 word \<Rightarrow> unit \<Rightarrow> unit io" where
  "ep_event sz m k fd efd ev u =
     (if snd ev AND EPOLLIN = 0 then pure ()
      else if fst ev = fd then ep_accept m k fd efd
      else ep_read sz k efd (fst ev))"

definition ep_round :: "nat \<Rightarrow> 32 word \<Rightarrow> kernel \<Rightarrow> int \<Rightarrow> int \<Rightarrow> unit \<Rightarrow> unit io" where
  "ep_round sz m k fd efd u =
     bnd (sys k (CEpollWait efd 1024 (-1))) (\<lambda>r.
       if ret r = -1 then sys_err
       else for_io (take (nat (ret r)) (evs r)) (ep_event sz m k fd efd) ())"

definition ep_main :: "nat \<Rightarrow> 32 word \<Rightarrow> nat \<Rightarrow> kernel \<Rightarrow> unit io" where
  "ep_main sz m rounds k =
     bnd (open_listener k True 8888) (\<lambda>fd.
     bnd (sys k (CEpollCreate 1024)) (\<lambda>r. let efd = ret r in
     if efd = -1 then sys_err
     else bnd (sys k (CEpollCtl efd CtlAdd fd EPOLLIN fd)) (\<lambda>r.
          if ret r = -1 then sys_err else times rounds (ep_round sz m k fd efd) ())))"

definition epoll_server :: "nat \<Rightarrow> kernel \<Rightarrow> unit io" where
  "epoll_server = ep_main 1024 EPOLLIN"

definition epoll_et_server2 :: "nat \<Rightarrow> kernel \<Rightarrow> unit io" where
  "epoll_et_server2 = ep_main 3 (EPOLLIN OR EPOLLET)"

section \<open>The pipe demonstration\<close>

text \<open>
  \<^verbatim>\<open>pipe\<close> stores its two descriptors; its failure is not tested, and the
  descriptors are then not initialised. The child reads 5 bytes for every report, the parent
  writes 10 bytes every three seconds.
\<close>

definition pipe_child_round :: "kernel \<Rightarrow> int \<Rightarrow> int \<Rightarrow> unit \<Rightarrow> unit io" where
  "pipe_child_round k efd rfd u =
     bnd (sys k (CEpollWait efd 1024 (-1))) (\<lambda>r.
       if 0 < ret r
       then bnd (Read k rfd 5) (\<lambda>r.
            bnd (sys k (CWrite STDOUT_FILENO (take (nat (ret r)) (dat r)))) (\<lambda>_. pure ()))
       else pure ())"

definition pipe_parent_round :: "kernel \<Rightarrow> int \<Rightarrow> unit \<Rightarrow> unit io" where
  "pipe_parent_round k wfd u =
     bnd (wr k (CWrite wfd (''aaaa'' @ [LF] @ ''bbbb'' @ [LF]))) (\<lambda>_.
     bnd (sys k (CSleep 3)) (\<lambda>_. pure ()))"

definition pipe_main :: "nat \<Rightarrow> kernel \<Rightarrow> unit io" where
  "pipe_main rounds k =
     bnd (sys k CPipe) (\<lambda>p.
     if ret p \<noteq> 0 \<or> length (evs p) < 2 then halt (Undef UninitUse)
     else let rfd = fst (evs p ! 0); wfd = fst (evs p ! 1) in
     bnd (sys k CFork) (\<lambda>r.
     if ret r = 0
     then bnd (sys k (CClose wfd)) (\<lambda>_.
          bnd (sys k (CEpollCreate 1024)) (\<lambda>r. let efd = ret r in
          if efd = -1 then sys_err
          else bnd (sys k (CEpollCtl efd CtlAdd rfd (EPOLLIN OR EPOLLET) rfd)) (\<lambda>r.
               if ret r = -1 then sys_err else times rounds (pipe_child_round k efd rfd) ())))
     else bnd (sys k (CClose rfd)) (\<lambda>_. times rounds (pipe_parent_round k wfd) ())))"

section \<open>What the servers keep\<close>

definition ep_inv :: "int \<Rightarrow> int \<Rightarrow> history \<Rightarrow> bool" where
  "ep_inv fd efd h \<longleftrightarrow> epoll_inv fd efd h \<and> printed h = read_bytes h"

lemma ep_inv_accept:
  assumes k: "kernel_fds k" and inv: "ep_inv fd efd h"
  shows "wp (ep_accept m k fd efd) (\<lambda>_. ep_inv fd efd) any_stop h"
proof -
  have "0 \<le> ret (k h (CAccept fd)) \<Longrightarrow> ret (k h (CAccept fd)) \<notin> watched efd h"
    using kernel_fdsD(1)[OF k, of h fd] by (auto simp: fresh_fd_def)
  then show ?thesis
    using inv k
    by (auto simp: ep_accept_def Accept_def wp_simps ep_inv_def epoll_inv_def insert_commute)
qed

lemma ep_inv_read:
  assumes "ep_inv fd efd h" and "sofd \<noteq> fd"
  shows "wp (ep_read sz k efd sofd) (\<lambda>_. ep_inv fd efd) any_stop h"
  using assms
  by (auto simp: ep_read_def Read_def wp_simps ep_inv_def epoll_inv_def Let_def)

lemma ep_inv_round:
  assumes k: "kernel_fds k" and inv: "ep_inv fd efd h"
  shows "wp (ep_round sz m k fd efd u) (\<lambda>_. ep_inv fd efd) any_stop h"
proof -
  have ev: "wp (ep_event sz m k fd efd ev u) (\<lambda>_. ep_inv fd efd) any_stop h" if "ep_inv fd efd h" for ev u h
    using that ep_inv_accept[OF k that] ep_inv_read[OF that] by (simp add: ep_event_def wp_simps)
  have "ep_inv fd efd ((CEpollWait efd n t, r) # h)" for n t r
    using inv by (simp add: ep_inv_def epoll_inv_def)
  then show ?thesis
    by (auto simp: ep_round_def wp_simps intro!: wp_for_io[where I = "\<lambda>_. ep_inv fd efd"] ev)
qed

lemma ep_inv_main:
  assumes k: "kernel_fds k"
  shows "wp (ep_main sz m rounds k) (\<lambda>_ h. \<exists>fd efd. ep_inv fd efd h) any_stop []"
proof -
  have loop: "wp (times rounds (ep_round sz m k fd efd) ()) (\<lambda>_ h. \<exists>fd efd. ep_inv fd efd h) any_stop h"
    if "ep_inv fd efd h" for fd efd h
    using that ep_inv_round[OF k]
    by (intro wp_mono[OF wp_times[where I = "\<lambda>_. ep_inv fd efd"]]) auto
  have init: "wp (open_listener k True 8888)
      (\<lambda>fd h. fd \<noteq> -1 \<and> no_conns h \<and> printed h = [] \<and> read_bytes h = []) any_stop []"
    by (rule wp_open_listener[where I = "\<lambda>h. no_conns h \<and> printed h = [] \<and> read_bytes h = []"])
      (auto simp: no_conns_def opening_call_def split: call.splits)
  have body: "wp (bnd (sys k (CEpollCreate 1024)) (\<lambda>r. let efd = ret r in
      if efd = -1 then sys_err
      else bnd (sys k (CEpollCtl efd CtlAdd fd EPOLLIN fd)) (\<lambda>r.
           if ret r = -1 then sys_err else times rounds (ep_round sz m k fd efd) ())))
      (\<lambda>_ h. \<exists>fd efd. ep_inv fd efd h) any_stop h"
    if "fd \<noteq> -1 \<and> no_conns h \<and> printed h = [] \<and> read_bytes h = []" for fd h
  proof -
    have "0 \<le> ret r \<Longrightarrow> ep_inv fd efd ((CEpollCtl efd CtlAdd fd 1 fd, r) # (CEpollCreate 1024, q) # h)" for efd r q
      using that by (auto simp: ep_inv_def epoll_inv_def no_conns_def)
    then show ?thesis using k by (auto simp: wp_simps Let_def intro!: loop)
  qed
  show ?thesis
    unfolding ep_main_def by (subst wp_bnd, rule wp_mono[OF init]) (use body in auto)
qed

section \<open>The properties\<close>

text \<open>
  C22. Both epoll servers keep exactly the listening socket and the accepted, not yet closed
  connections registered, and have printed exactly the bytes they have read from all their
  connections, in order, after every number of rounds.
\<close>
theorem epoll_servers_invariant:
  assumes "kernel_fds k" and "main \<in> {epoll_server, epoll_et_server2}" and "main rounds k [] = (Inr u, h)"
  shows "printed h = read_bytes h \<and> (\<exists>lfd efd. watched efd h = insert lfd (open_conns h) \<and> lfd \<notin> open_conns h)"
proof -
  obtain sz m where "main = ep_main sz m"
    using assms(2) by (auto simp: epoll_server_def epoll_et_server2_def)
  then show ?thesis
    using wp_InrD[OF ep_inv_main[OF assms(1)], of sz m rounds u h] assms(3)
    by (auto simp: ep_inv_def epoll_inv_def)
qed

definition epoll_demo :: kernel where
  "epoll_demo = keep_fds (script
     [mk_ret 3, mk_ret 0, mk_ret 0, mk_ret 0, mk_ret 4, mk_ret 0,
      mk_ret 1\<lparr>evs := [(3, 1)]\<rparr>, mk_ret 7, mk_ret 0,
      mk_ret 1\<lparr>evs := [(7, 1)]\<rparr>, mk_ret 3\<lparr>dat := ''abc''\<rparr>, mk_ret 3])"

theorem epoll_servers_invariant_witness:
  "\<exists>h. epoll_et_server2 (Suc (Suc 0)) epoll_demo [] = (Inr (), h) \<and> printed h = ''abc'' \<and>
    printed h = read_bytes h \<and> (\<exists>lfd efd. watched efd h = insert lfd (open_conns h) \<and> lfd \<notin> open_conns h)"
proof -
  obtain h where h: "epoll_et_server2 (Suc (Suc 0)) epoll_demo [] = (Inr (), h)" "printed h = ''abc''"
    by (simp add: epoll_et_server2_def ep_main_def open_listener_def wrapper_defs ep_round_def ep_event_def ep_accept_def
        ep_read_def Let_def io_simps epoll_demo_def keep_fds_def script_def fresh_fd_def)
  have "kernel_fds epoll_demo" unfolding epoll_demo_def by (rule kernel_fds_keep)
  from epoll_servers_invariant[OF this, of epoll_et_server2] h show ?thesis by blast
qed

end
