(* ===== verification/Stream_Link.thy ===== *)
theory Stream_Link
  imports Net_Base
begin

text \<open>
  One direction of a byte stream between two descriptors, read off the history: a pipe, or one half of a connected
  socket. The laws of the kernel for it are shared by the programs that talk over one.
\<close>

text \<open>The bytes written at one end and not yet read at the other.\<close>

fun pending :: "int \<Rightarrow> int \<Rightarrow> history \<Rightarrow> bytes" where
  "pending a b [] = []"
| "pending a b ((c, r) # h) =
     (case c of
        CWrite f m \<Rightarrow> if f = a then pending a b h @ take (nat (ret r)) m else pending a b h
      | CRead f n \<Rightarrow> if f = b then drop (nat (ret r)) (pending a b h) else pending a b h
      | _ \<Rightarrow> pending a b h)"

lemma pending_simps [simp]:
  "pending a b ((CFgets n, r) # h) = pending a b h"
  "pending a b ((CWrite f m, r) # h) = (if f = a then pending a b h @ take (nat (ret r)) m else pending a b h)"
  "pending a b ((CRead f n, r) # h) = (if f = b then drop (nat (ret r)) (pending a b h) else pending a b h)"
  "pending a b ((CSleep n, r) # h) = pending a b h"
  "pending a b ((CEpollWait e n t, r) # h) = pending a b h"
  by simp_all

text \<open>A read gives what is there, as far as there is room.\<close>

definition delivers :: "kernel \<Rightarrow> int \<Rightarrow> int \<Rightarrow> bool" where
  "delivers k a b \<longleftrightarrow>
     (\<forall>h n. pending a b h \<noteq> [] \<longrightarrow>
        ret (k h (CRead b n)) = int (min n (length (pending a b h))) \<and> dat (k h (CRead b n)) = take n (pending a b h))"

text \<open>Writes are taken whole: always, or while the stream holds at most \<open>A\<close> bytes.\<close>

definition duplex :: "kernel \<Rightarrow> int \<Rightarrow> int \<Rightarrow> bool" where
  "duplex k a b \<longleftrightarrow> delivers k a b \<and> (\<forall>h m. ret (k h (CWrite a m)) = int (length m))"

definition pipe_link :: "kernel \<Rightarrow> int \<Rightarrow> int \<Rightarrow> nat \<Rightarrow> bool" where
  "pipe_link k a b A \<longleftrightarrow>
     delivers k a b \<and>
     (\<forall>h m. length (pending a b h) + length m \<le> A \<longrightarrow> ret (k h (CWrite a m)) = int (length m))"

lemma deliversD:
  assumes "delivers k a b"
  shows "pending a b h = l \<Longrightarrow> l \<noteq> [] \<Longrightarrow> length l \<le> n \<Longrightarrow> ret (k h (CRead b n)) = int (length l)"
    and "pending a b h = l \<Longrightarrow> l \<noteq> [] \<Longrightarrow> length l \<le> n \<Longrightarrow> dat (k h (CRead b n)) = l"
    and "pending a b h = l \<Longrightarrow> l \<noteq> [] \<Longrightarrow> n \<le> length l \<Longrightarrow> ret (k h (CRead b n)) = int n"
    and "pending a b h = l \<Longrightarrow> l \<noteq> [] \<Longrightarrow> n \<le> length l \<Longrightarrow> dat (k h (CRead b n)) = take n l"
  using assms by (auto simp: delivers_def min_def)

lemma duplexD:
  assumes "duplex k a b"
  shows "ret (k h (CWrite a m)) = int (length m)"
    and "pending a b h = l \<Longrightarrow> l \<noteq> [] \<Longrightarrow> length l \<le> n \<Longrightarrow> ret (k h (CRead b n)) = int (length l)"
    and "pending a b h = l \<Longrightarrow> l \<noteq> [] \<Longrightarrow> length l \<le> n \<Longrightarrow> dat (k h (CRead b n)) = l"
  using assms deliversD[of k a b] by (auto simp: duplex_def)

end
