(* ===== verification/Pipe_Demo.thy ===== *)
theory Pipe_Demo
  imports Epoll_Servers Stream_Link
begin

text \<open>
  The two processes of \<^verbatim>\<open>epoll_et/server.c\<close> on their pipe, which the child watches
  edge-triggered: the parent writes ten bytes at a time, the child reads five for each report. What is left
  unread grows until the pipe is full, and then both wait for ever.
\<close>

section \<open>The pipe and its reports\<close>

text \<open>An edge: something was written since the last report.\<close>

fun edge :: "int \<Rightarrow> int \<Rightarrow> history \<Rightarrow> bool" where
  "edge wfd efd [] = False"
| "edge wfd efd ((c, r) # h) =
     (case c of
        CWrite f m \<Rightarrow> if f = wfd then True else edge wfd efd h
      | CEpollWait e n t \<Rightarrow> if e = efd then False else edge wfd efd h
      | _ \<Rightarrow> edge wfd efd h)"

definition edge_reports :: "kernel \<Rightarrow> int \<Rightarrow> int \<Rightarrow> bool" where
  "edge_reports k wfd efd \<longleftrightarrow> (\<forall>h n t. edge wfd efd h \<longrightarrow> 0 < ret (k h (CEpollWait efd n t)))"

definition pipe_world :: "kernel \<Rightarrow> int \<Rightarrow> int \<Rightarrow> int \<Rightarrow> nat \<Rightarrow> bool" where
  "pipe_world k wfd rfd efd A \<longleftrightarrow>
     pipe_link k wfd rfd A \<and> edge_reports k wfd efd \<and> wfd \<noteq> STDOUT_FILENO \<and> rfd \<noteq> STDOUT_FILENO"

lemma pipe_worldD:
  assumes "pipe_world k wfd rfd efd A"
  shows "delivers k wfd rfd" "length (pending wfd rfd h) + length m \<le> A \<Longrightarrow> ret (k h (CWrite wfd m)) = int (length m)"
    "edge wfd efd h \<Longrightarrow> 0 < ret (k h (CEpollWait efd n t))" "wfd \<noteq> STDOUT_FILENO"
  using assms by (auto simp: pipe_world_def pipe_link_def edge_reports_def)

section \<open>Runs\<close>

text \<open>
  \<open>p\<close> rounds of the parent and \<open>c\<close> of the child, in any order: a write waits for room, the child for an edge.
\<close>

inductive pipe_run :: "kernel \<Rightarrow> int \<Rightarrow> int \<Rightarrow> int \<Rightarrow> nat \<Rightarrow> nat \<Rightarrow> nat \<Rightarrow> history \<Rightarrow> bool"
  for k wfd rfd efd A where
  start: "pipe_run k wfd rfd efd A 0 0 []"
| parent: "pipe_run k wfd rfd efd A p c h \<Longrightarrow> length (pending wfd rfd h) + 10 \<le> A \<Longrightarrow>
    pipe_parent_round k wfd () h = (Inr (), h') \<Longrightarrow> pipe_run k wfd rfd efd A (Suc p) c h'"
| child: "pipe_run k wfd rfd efd A p c h \<Longrightarrow> edge wfd efd h \<Longrightarrow>
    pipe_child_round k efd rfd () h = (Inr (), h') \<Longrightarrow> pipe_run k wfd rfd efd A p (Suc c) h'"

definition pipe_text :: "nat \<Rightarrow> bytes" where
  "pipe_text p = concat (replicate p (''aaaa'' @ [LF] @ ''bbbb'' @ [LF]))"

lemma length_pipe_text [simp]: "length (pipe_text p) = 10 * p"
  by (induction p) (simp_all add: pipe_text_def)

lemma pipe_text_Suc: "pipe_text (Suc p) = pipe_text p @ ''aaaa'' @ [LF] @ ''bbbb'' @ [LF]"
  by (simp add: pipe_text_def replicate_append_same[symmetric] del: replicate_append_same)

text \<open>After any run; every report answers a write of its own.\<close>

definition pipe_inv :: "int \<Rightarrow> int \<Rightarrow> int \<Rightarrow> nat \<Rightarrow> nat \<Rightarrow> nat \<Rightarrow> history \<Rightarrow> bool" where
  "pipe_inv wfd rfd efd A p c h \<longleftrightarrow>
     printed h = take (5 * c) (pipe_text p) \<and> pending wfd rfd h = drop (5 * c) (pipe_text p) \<and>
     c + (if edge wfd efd h then 1 else 0) \<le> p \<and> length (pending wfd rfd h) \<le> A"

lemma parent_goes:
  assumes w: "pipe_world k wfd rfd efd A" and inv: "pipe_inv wfd rfd efd A p c h" and room: "length (pending wfd rfd h) + 10 \<le> A"
  shows "wp (pipe_parent_round k wfd ()) (\<lambda>_. pipe_inv wfd rfd efd A (Suc p) c) (\<lambda>_ _. False) h"
proof -
  have "ret (k h (CWrite wfd (''aaaa'' @ [LF] @ ''bbbb'' @ [LF]))) = 10"
    using pipe_worldD(2)[OF w, of h "''aaaa'' @ [LF] @ ''bbbb'' @ [LF]"] room by simp
  moreover have "5 * c \<le> 10 * p" using inv by (simp add: pipe_inv_def split: if_splits)
  ultimately show ?thesis
    using inv room pipe_worldD(4)[OF w]
    by (auto simp: pipe_parent_round_def wp_simps pipe_inv_def pipe_text_Suc split: if_splits)
qed

lemma child_goes:
  assumes w: "pipe_world k wfd rfd efd A" and inv: "pipe_inv wfd rfd efd A p c h" and e: "edge wfd efd h"
  shows "wp (pipe_child_round k efd rfd ()) (\<lambda>_. pipe_inv wfd rfd efd A p (Suc c)) (\<lambda>_ _. False) h"
proof -
  let ?h = "(CEpollWait efd 1024 (-1), k h (CEpollWait efd 1024 (-1))) # h"
  have c: "Suc c \<le> p" using inv e by (simp add: pipe_inv_def)
  have pend: "pending wfd rfd ?h = drop (5 * c) (pipe_text p)" using inv by (simp add: pipe_inv_def)
  have some: "drop (5 * c) (pipe_text p) \<noteq> []" "5 \<le> length (drop (5 * c) (pipe_text p))"
    using c by (simp_all flip: length_0_conv)
  note r = deliversD(3,4)[OF pipe_worldD(1)[OF w] pend some]
  have "take (5 * c) (pipe_text p) @ take 5 (drop (5 * c) (pipe_text p)) = take (5 * Suc c) (pipe_text p)"
    by (simp add: take_add[symmetric] add.commute)
  then show ?thesis
    using inv c r pipe_worldD(3)[OF w e, of 1024 "-1"] pipe_worldD(4)[OF w]
    by (auto simp: pipe_child_round_def Read_def wp_simps pipe_inv_def add.commute)
qed

lemma pipe_run_inv:
  assumes "pipe_world k wfd rfd efd A" and "pipe_run k wfd rfd efd A p c h"
  shows "pipe_inv wfd rfd efd A p c h"
  using assms(2)
proof induction
  case start
  show ?case by (simp add: pipe_inv_def pipe_text_def)
next
  case (parent p c h h')
  then show ?case by (auto dest: wp_InrD[OF parent_goes[OF assms(1)]])
next
  case (child p c h h')
  then show ?case by (auto dest: wp_InrD[OF child_goes[OF assms(1)]])
qed

section \<open>The end of the demonstration\<close>

text \<open>
  C26. Parent and child of the pipe demonstration make together at most 2 * (A div 5) rounds on a pipe of A bytes, however
  they alternate: each report stands for a write of ten bytes, of which the child prints the first five that are left, so
  the backlog grows. Up to then one of them can go on; a run that has come to its end leaves
  less room than the parent waits for, and no report for the child, who will not read again what is there.
\<close>
theorem pipe_demo_stops:
  assumes "pipe_world k wfd rfd efd A" and "pipe_run k wfd rfd efd A p c h"
  shows "c \<le> p \<and> p + c \<le> 2 * (A div 5) \<and>
    printed h = take (5 * c) (pipe_text p) \<and> pending wfd rfd h = drop (5 * c) (pipe_text p) \<and>
    (if length (pending wfd rfd h) + 10 \<le> A \<or> edge wfd efd h
     then \<exists>h'. pipe_run k wfd rfd efd A (Suc p) c h' \<or> pipe_run k wfd rfd efd A p (Suc c) h'
     else A < 10 * p - 5 * c + 10)"
proof -
  have inv: "pipe_inv wfd rfd efd A p c h" by (rule pipe_run_inv[OF assms])
  then have c: "c \<le> p" by (simp add: pipe_inv_def split: if_splits)
  have len: "10 * p - 5 * c \<le> A" using inv by (auto simp: pipe_inv_def)
  then have "5 * p \<le> A" using c by linarith
  then have "p \<le> A div 5" by (simp add: less_eq_div_iff_mult_less_eq)
  moreover have "\<exists>h'. pipe_run k wfd rfd efd A (Suc p) c h'" if room: "length (pending wfd rfd h) + 10 \<le> A"
    using parent_goes[OF assms(1) inv room] pipe_run.parent[OF assms(2) room]
    by (auto simp: wp_def split: prod.splits sum.splits)
  moreover have "\<exists>h'. pipe_run k wfd rfd efd A p (Suc c) h'" if e: "edge wfd efd h"
    using child_goes[OF assms(1) inv e] pipe_run.child[OF assms(2) e]
    by (auto simp: wp_def split: prod.splits sum.splits)
  ultimately show ?thesis using c inv by (auto simp: pipe_inv_def)
qed

text \<open>A pipe of 20 bytes: two writes, a report and five bytes read, and neither can go on.\<close>

definition small_pipe :: kernel where
  "small_pipe h x =
     (case x of
        CWrite fd b \<Rightarrow> mk_ret (int (length b))
      | CRead fd n \<Rightarrow> let u = take n (pending 4 3 h) in mk_ret (int (length u))\<lparr>dat := u\<rparr>
      | _ \<Rightarrow> mk_ret 1)"

lemma small_pipe_world: "pipe_world small_pipe 4 3 5 20"
  by (auto simp: pipe_world_def pipe_link_def delivers_def edge_reports_def small_pipe_def Let_def min_def)

theorem pipe_demo_stops_witness:
  "\<exists>h. pipe_run small_pipe 4 3 5 20 2 1 h \<and> printed h = ''aaaa'' @ [LF] \<and> length (pending 4 3 h) = 15 \<and> \<not> edge 4 5 h"
proof -
  let ?b = "''aaaa'' @ [LF] @ ''bbbb'' @ [LF]"
  have "\<exists>h. pipe_run small_pipe 4 3 5 20 2 1 h \<and> \<not> edge 4 5 h"
  proof -
    let ?w = "\<lambda>h. (CSleep 3, mk_ret 1) # (CWrite 4 ?b, mk_ret 10) # h"
    have step: "pipe_parent_round small_pipe 4 () h = (Inr (), ?w h)" for h
      by (simp add: pipe_parent_round_def io_simps small_pipe_def)
    have "pipe_run small_pipe 4 3 5 20 1 0 (?w [])"
      using pipe_run.parent[OF pipe_run.start _ step] by simp
    then have run: "pipe_run small_pipe 4 3 5 20 2 0 (?w (?w []))"
      using pipe_run.parent[OF _ _ step] by (fastforce simp: numeral_2_eq_2)
    have "\<exists>h'. pipe_child_round small_pipe 5 3 () (?w (?w [])) = (Inr (), h') \<and> \<not> edge 4 5 h'"
      by (simp add: pipe_child_round_def Read_def io_simps small_pipe_def Let_def)
    then show ?thesis using pipe_run.child[OF run] by force
  qed
  then obtain h where h: "pipe_run small_pipe 4 3 5 20 2 1 h" "\<not> edge 4 5 h" by blast
  from pipe_demo_stops[OF small_pipe_world h(1)] have "printed h = take 5 (pipe_text 2)" "pending 4 3 h = drop 5 (pipe_text 2)"
    by simp_all
  with h show ?thesis by (auto simp: pipe_text_def numeral_2_eq_2)
qed

end
