(* ===== verification/Select_Servers.thy ===== *)
theory Select_Servers
  imports Wrappers Slots
begin

text \<open>
  The servers built on \<^verbatim>\<open>select\<close>: \<^verbatim>\<open>seclect/server.c\<close>, which
  tries every descriptor above the listening one, and \<^verbatim>\<open>seclect/server2.c\<close>,
  which keeps the connections in an array. A descriptor set is a set of numbers below 1024
  (\<^verbatim>\<open>FD_SETSIZE\<close>); adding any other descriptor is undefined. Both echo what they
  read in upper case, through the \<^verbatim>\<open>Read\<close> that reads 8 bytes at most.
\<close>

section \<open>Descriptor sets and one connection\<close>

abbreviation (input) FD_SETSIZE :: int where "FD_SETSIZE \<equiv> 1024"

definition fd_set :: "int \<Rightarrow> int set \<Rightarrow> stop + int set" where
  "fd_set fd S = (if 0 \<le> fd \<and> fd < FD_SETSIZE then Inr (insert fd S) else Inl (Undef OutOfBounds))"

text \<open>
  The body of both loops for a ready connection: whether it was closed.
\<close>

definition sel_echo :: "kernel \<Rightarrow> int \<Rightarrow> bool io" where
  "sel_echo k i =
     bnd (Read_ptr k i BUFSIZ) (\<lambda>r.
       if ret r = -1 then sys_err
       else if ret r = 0 then bnd (sys k (CClose i)) (\<lambda>_. pure True)
       else let b = map to_upper (take (nat (ret r)) (dat r)) in
            bnd (wr k (CWrite i b)) (\<lambda>_. bnd (sys k (CWrite STDOUT_FILENO b)) (\<lambda>_. pure False)))"

section \<open>The server without an array\<close>

definition sel_body :: "kernel \<Rightarrow> int set \<Rightarrow> int \<Rightarrow> int set \<Rightarrow> int set io" where
  "sel_body k rset i allset =
     (if i \<in> rset
      then bnd (sel_echo k i) (\<lambda>closed. pure (if closed then allset - {i} else allset))
      else pure allset)"

definition sel_accept :: "kernel \<Rightarrow> int \<Rightarrow> int set \<times> int \<Rightarrow> (int set \<times> int) io" where
  "sel_accept k fd s =
     bnd (Accept k fd) (\<lambda>cfd.
     bnd (lift (fd_set cfd (fst s))) (\<lambda>a. pure (a, if snd s < cfd then cfd else snd s)))"

text \<open>Back to the loop's head when only the listening descriptor was ready, else every descriptor.\<close>

definition sel_scan :: "kernel \<Rightarrow> int \<Rightarrow> int set \<Rightarrow> int \<Rightarrow> int set \<times> int \<Rightarrow> (int set \<times> int) io" where
  "sel_scan k fd rset n s =
     (if fd \<in> rset \<and> n = 1 then pure s
      else bnd (for_io [fd + 1..snd s] (sel_body k rset) (fst s)) (\<lambda>a. pure (a, snd s)))"

definition sel_round :: "kernel \<Rightarrow> int \<Rightarrow> int set \<times> int \<Rightarrow> (int set \<times> int) io" where
  "sel_round k fd s =
     bnd (sys k (CSelect (snd s + 1) (fst s))) (\<lambda>r. let rset = fst ` set (evs r) in
     if ret r < 0 then sys_err
     else bnd (if fd \<in> rset then sel_accept k fd s else pure s) (sel_scan k fd rset (ret r)))"

definition select_server :: "nat \<Rightarrow> kernel \<Rightarrow> (int set \<times> int) io" where
  "select_server rounds k =
     bnd (open_listener k True 6587) (\<lambda>fd.
     bnd (lift (fd_set fd {})) (\<lambda>allset. times rounds (sel_round k fd) (allset, fd)))"

section \<open>The server with an array\<close>

record sel2 =
  allset :: "int set"
  maxfd :: int
  maxindex :: int
  cfds :: "int list"

definition free_cfd :: "int \<Rightarrow> bool" where
  "free_cfd x \<longleftrightarrow> x < 0"

definition sel2_accept :: "kernel \<Rightarrow> int \<Rightarrow> sel2 \<Rightarrow> sel2 io" where
  "sel2_accept k fd s =
     bnd (Accept k fd) (\<lambda>cfd. let index = scan free_cfd (cfds s) 0 1024 in
       if index = 1024 then sys_err
       else bnd (lift (fd_set cfd (allset s))) (\<lambda>a.
         pure \<lparr>allset = a, maxfd = (if maxfd s < cfd then cfd else maxfd s),
               maxindex = (if maxindex s < int index then int index else maxindex s),
               cfds = (cfds s)[index := cfd]\<rparr>))"

text \<open>The loop over the array, with the number of ready descriptors that are left.\<close>

definition sel2_body :: "kernel \<Rightarrow> int set \<Rightarrow> nat \<Rightarrow> sel2 \<times> int \<Rightarrow> (bool \<times> sel2 \<times> int) io" where
  "sel2_body k rset i sn =
     (let s = fst sn; n = snd sn; socketfd = cfds s ! i in
      if socketfd < 0 then pure (False, s, n)
      else if socketfd \<in> rset
      then bnd (sel_echo k socketfd) (\<lambda>closed.
             let s = (if closed then s\<lparr>cfds := (cfds s)[i := -1], allset := allset s - {socketfd}\<rparr> else s)
             in pure (n - 1 = 0, s, n - 1))
      else pure (False, s, n))"

definition sel2_scan :: "kernel \<Rightarrow> int \<Rightarrow> int set \<Rightarrow> int \<Rightarrow> sel2 \<Rightarrow> sel2 io" where
  "sel2_scan k fd rset n s =
     (if fd \<in> rset \<and> n = 0 then pure s
      else bnd (for_brk [0..<nat (maxindex s + 1)] (sel2_body k rset) (s, n)) (\<lambda>sn. pure (fst sn)))"

definition sel2_round :: "kernel \<Rightarrow> int \<Rightarrow> sel2 \<Rightarrow> sel2 io" where
  "sel2_round k fd s =
     bnd (sys k (CSelect (maxfd s + 1) (allset s))) (\<lambda>r. let rset = fst ` set (evs r) in
     if ret r < 0 then sys_err
     else if fd \<in> rset then bnd (sel2_accept k fd s) (sel2_scan k fd rset (ret r - 1))
     else sel2_scan k fd rset (ret r) s)"

definition select_server2 :: "nat \<Rightarrow> kernel \<Rightarrow> sel2 io" where
  "select_server2 rounds k =
     bnd (open_listener k True 6587) (\<lambda>fd.
     bnd (lift (fd_set fd {})) (\<lambda>a.
       times rounds (sel2_round k fd)
         \<lparr>allset = a, maxfd = fd, maxindex = -1, cfds = replicate 1024 (-1)\<rparr>))"

section \<open>What the servers keep\<close>

text \<open>One connection is served: it is closed, or nothing changes.\<close>

lemma wp_sel_echo:
  "wp (sel_echo k i)
     (\<lambda>closed h'. open_conns h' = (if closed then open_conns h - {i} else open_conns h)) any_stop h"
  by (auto simp: sel_echo_def Read_ptr_def wp_simps Let_def simp del: of_nat_numeral)

definition sel_inv :: "int \<Rightarrow> int set \<times> int \<Rightarrow> history \<Rightarrow> bool" where
  "sel_inv fd s h \<longleftrightarrow> fst s = insert fd (open_conns h) \<and> fd \<notin> open_conns h \<and>
     (\<forall>x \<in> fst s. 0 \<le> x \<and> x < FD_SETSIZE \<and> x \<le> snd s)"

lemma sel_inv_accept:
  assumes k: "accept_fresh k" and inv: "sel_inv fd (a, m) h"
  shows "wp (sel_accept k fd (a, m)) (sel_inv fd) any_stop h"
proof -
  let ?c = "ret (k h (CAccept fd))"
  have "sel_inv fd (insert ?c a, if m < ?c then ?c else m) ((CAccept fd, k h (CAccept fd)) # h)"
    if "0 \<le> ?c" "?c < 1024"
    using inv accept_freshD[OF k that(1)] that by (fastforce simp: sel_inv_def)
  then show ?thesis
    by (auto simp: sel_accept_def Accept_def wp_simps fd_set_def)
qed

lemma sel_inv_body:
  assumes "sel_inv fd (a, m) h" and "i \<noteq> fd"
  shows "wp (sel_body k rset i a) (\<lambda>a. sel_inv fd (a, m)) any_stop h"
  using assms
  by (auto simp: sel_body_def wp_simps sel_inv_def intro!: wp_mono[OF wp_sel_echo] split: if_splits)

lemma sel_inv_scan:
  assumes "sel_inv fd s h"
  shows "wp (sel_scan k fd rset n s) (sel_inv fd) any_stop h"
proof -
  have "wp (for_io [fd + 1..snd s] (sel_body k rset) (fst s)) (\<lambda>a. sel_inv fd (a, snd s)) any_stop h"
    using assms by (intro wp_for_io[where I = "\<lambda>a. sel_inv fd (a, snd s)"] sel_inv_body) auto
  then show ?thesis using assms by (auto simp: sel_scan_def wp_simps elim!: wp_mono)
qed

lemma sel_inv_round:
  assumes k: "accept_fresh k" and inv: "sel_inv fd s h"
  shows "wp (sel_round k fd s) (sel_inv fd) any_stop h"
proof -
  obtain a m where s: "s = (a, m)" by (cases s)
  have "sel_inv fd (a, m) ((CSelect n S, r) # h)" for n S r
    using inv by (simp add: sel_inv_def s)
  then show ?thesis
    unfolding s sel_round_def
    by (auto simp: wp_simps Let_def intro!: wp_mono[OF sel_inv_accept[OF k]] sel_inv_scan)
qed

lemma sel_inv_main:
  assumes k: "accept_fresh k"
  shows "wp (select_server rounds k) (\<lambda>s h. \<exists>fd. sel_inv fd s h) any_stop []"
proof -
  have init: "wp (open_listener k True 6587) (\<lambda>fd h. fd \<noteq> -1 \<and> no_conns h) any_stop []"
    by (rule wp_open_listener) (simp add: no_conns_def, rule no_conns_opening)
  have loop: "wp (times rounds (sel_round k fd) s) (\<lambda>s h. \<exists>fd. sel_inv fd s h) any_stop h"
    if "sel_inv fd s h" for fd s h
    by (rule wp_mono[OF wp_times[where I = "sel_inv fd"]]) (use that sel_inv_round[OF k] in auto)
  have "sel_inv fd ({fd}, fd) h" if "no_conns h" "0 \<le> fd" "fd < 1024" for fd h
    using that by (simp add: sel_inv_def no_conns_def)
  then show ?thesis
    unfolding select_server_def wp_bnd
    by (intro wp_mono[OF init]) (auto simp: wp_simps fd_set_def intro!: loop)
qed

section \<open>The array as a table\<close>

interpretation cfd: slot_table free_cfd "\<lambda>x. x" "\<lambda>v x. v" "\<lambda>x. -1" "\<lambda>v. 0 \<le> v"
  by unfold_locales (auto simp: free_cfd_def)

abbreviation (input) cfd_keys :: "int list \<Rightarrow> int set" where "cfd_keys \<equiv> keys_of free_cfd (\<lambda>x. x)"

definition sel2_inv :: "int \<Rightarrow> sel2 \<Rightarrow> history \<Rightarrow> bool" where
  "sel2_inv fd s h \<longleftrightarrow> sel_inv fd (allset s, maxfd s) h \<and> length (cfds s) = 1024 \<and>
     one_each free_cfd (\<lambda>x. x) (cfds s) \<and> cfd_keys (cfds s) = open_conns h \<and>
     -1 \<le> maxindex s \<and> maxindex s < 1024 \<and>
     (\<forall>j < 1024. maxindex s < int j \<longrightarrow> free_cfd (cfds s ! j))"

text \<open>There is always a free element: descriptors below 1024 are fewer than the elements.\<close>

lemma sel2_room:
  assumes "sel2_inv fd s h"
  shows "scan free_cfd (cfds s) 0 1024 < 1024"
proof -
  have "cfd_keys (cfds s) \<subseteq> {0..<1024} - {fd}" "0 \<le> fd" "fd < 1024"
    using assms by (auto simp: sel2_inv_def sel_inv_def)
  from cfd.room_left[OF _ this] assms obtain i where "i < 1024" "free_cfd (cfds s ! i)"
    by (auto simp: sel2_inv_def)
  then have "scan free_cfd (cfds s) 0 1024 \<noteq> 0 + 1024" using scan_none[of free_cfd "cfds s" 0 1024] by auto
  then show ?thesis using scan_bounds[of 0 free_cfd "cfds s" 1024] by simp
qed

lemma sel2_inv_accept:
  assumes k: "accept_fresh k" and inv: "sel2_inv fd s h"
  shows "wp (sel2_accept k fd s) (sel2_inv fd) any_stop h"
proof -
  let ?c = "ret (k h (CAccept fd))" and ?i = "scan free_cfd (cfds s) 0 1024"
  let ?h = "(CAccept fd, k h (CAccept fd)) # h"
  have i: "?i < 1024" and free: "free_cfd (cfds s ! ?i)"
    using sel2_room[OF inv] scan_found[of free_cfd "cfds s" 0 1024] by auto
  have "sel2_inv fd \<lparr>allset = insert ?c (allset s), maxfd = (if maxfd s < ?c then ?c else maxfd s),
      maxindex = (if maxindex s < int ?i then int ?i else maxindex s), cfds = (cfds s)[?i := ?c]\<rparr> ?h"
    if c: "0 \<le> ?c" "?c < 1024"
  proof -
    have l: "length (cfds s) = 1024" and keys: "cfd_keys (cfds s) = open_conns h"
      and one: "one_each free_cfd (\<lambda>x. x) (cfds s)" using inv by (auto simp: sel2_inv_def)
    have "sel_inv fd (insert ?c (allset s), if maxfd s < ?c then ?c else maxfd s) ?h"
      using inv accept_freshD[OF k c(1)] c by (fastforce simp: sel2_inv_def sel_inv_def)
    moreover have "cfd_keys ((cfds s)[?i := ?c]) = open_conns ?h"
      using cfd.fill_keys[OF c(1), of ?i "cfds s"] i l free keys c(1) by simp
    moreover have "one_each free_cfd (\<lambda>x. x) ((cfds s)[?i := ?c])"
      using cfd.fill_one_each[OF c(1), of ?i "cfds s"] i l one keys accept_freshD(1)[OF k c(1)] by simp
    moreover have "\<forall>j < 1024. (if maxindex s < int ?i then int ?i else maxindex s) < int j \<longrightarrow>
        free_cfd ((cfds s)[?i := ?c] ! j)"
      using inv by (auto simp: sel2_inv_def nth_list_update)
    ultimately show ?thesis using inv i l by (auto simp: sel2_inv_def)
  qed
  then show ?thesis
    using i by (auto simp: sel2_accept_def Accept_def wp_simps fd_set_def Let_def)
qed

lemma sel2_inv_close:
  assumes inv: "sel2_inv fd s h" and i: "i < 1024" and c: "\<not> cfds s ! i < 0"
    and h': "open_conns h' = open_conns h - {cfds s ! i}"
  shows "sel2_inv fd (s\<lparr>cfds := (cfds s)[i := -1], allset := allset s - {cfds s ! i}\<rparr>) h'"
proof -
  have l: "length (cfds s) = 1024" and keys: "cfd_keys (cfds s) = open_conns h"
    and one: "one_each free_cfd (\<lambda>x. x) (cfds s)" using inv by (auto simp: sel2_inv_def)
  have used: "\<not> free_cfd (cfds s ! i)" using c by (simp add: free_cfd_def)
  have a: "allset s = insert fd (open_conns h)" "fd \<notin> open_conns h"
    using inv by (simp_all add: sel2_inv_def sel_inv_def)
  have "cfds s ! i \<in> cfd_keys (cfds s)" using used i l by (subst keys_of_iff) (metis)
  then have "fd \<noteq> cfds s ! i" using a keys by auto
  then have "sel_inv fd (allset s - {cfds s ! i}, maxfd s) h'"
    using inv h' a by (simp add: sel2_inv_def sel_inv_def insert_Diff_if)
  moreover have "cfd_keys ((cfds s)[i := -1]) = open_conns h'"
    using cfd.clear_keys[OF one _ used] i l keys h' by simp
  moreover have "one_each free_cfd (\<lambda>x. x) ((cfds s)[i := -1])"
    using cfd.clear_one_each[OF one] .
  moreover have "\<forall>j < 1024. maxindex s < int j \<longrightarrow> free_cfd ((cfds s)[i := -1] ! j)"
    using inv l i by (auto simp: sel2_inv_def nth_list_update free_cfd_def)
  ultimately show ?thesis using inv by (auto simp: sel2_inv_def)
qed

lemma sel2_inv_same: "sel2_inv fd s h \<Longrightarrow> open_conns h' = open_conns h \<Longrightarrow> sel2_inv fd s h'"
  by (simp add: sel2_inv_def sel_inv_def)

lemma sel2_inv_body:
  assumes inv: "sel2_inv fd (fst sn) h" and i: "i < 1024"
  shows "wp (sel2_body k rset i sn) (\<lambda>(b, sn). sel2_inv fd (fst sn)) any_stop h"
  using inv i sel2_inv_close[OF inv i] sel2_inv_same[OF inv]
  by (auto simp: sel2_body_def wp_simps Let_def intro!: wp_mono[OF wp_sel_echo] split: if_splits)

lemma sel2_inv_scan:
  assumes inv: "sel2_inv fd s h"
  shows "wp (sel2_scan k fd rset n s) (sel2_inv fd) any_stop h"
proof -
  have "i < 1024" if "i \<in> set [0..<nat (maxindex s + 1)]" for i
    using that inv by (auto simp: sel2_inv_def)
  then have "wp (for_brk [0..<nat (maxindex s + 1)] (sel2_body k rset) (s, n)) (\<lambda>sn. sel2_inv fd (fst sn)) any_stop h"
    using inv by (intro wp_for_brk[where I = "\<lambda>sn. sel2_inv fd (fst sn)"] wp_mono[OF sel2_inv_body]) auto
  then show ?thesis using inv by (auto simp: sel2_scan_def wp_simps elim!: wp_mono)
qed

lemma sel2_inv_round:
  assumes k: "accept_fresh k" and inv: "sel2_inv fd s h"
  shows "wp (sel2_round k fd s) (sel2_inv fd) any_stop h"
proof -
  have "sel2_inv fd s ((CSelect n S, r) # h)" for n S r
    by (rule sel2_inv_same[OF inv]) simp
  then show ?thesis
    unfolding sel2_round_def
    by (auto simp: wp_simps Let_def intro!: wp_mono[OF sel2_inv_accept[OF k]] sel2_inv_scan)
qed

lemma sel2_inv_main:
  assumes k: "accept_fresh k"
  shows "wp (select_server2 rounds k) (\<lambda>s h. \<exists>fd. sel2_inv fd s h) any_stop []"
proof -
  have init: "wp (open_listener k True 6587) (\<lambda>fd h. fd \<noteq> -1 \<and> no_conns h) any_stop []"
    by (rule wp_open_listener) (simp add: no_conns_def, rule no_conns_opening)
  have loop: "wp (times rounds (sel2_round k fd) s) (\<lambda>s h. \<exists>fd. sel2_inv fd s h) any_stop h"
    if "sel2_inv fd s h" for fd s h
    by (rule wp_mono[OF wp_times[where I = "sel2_inv fd"]]) (use that sel2_inv_round[OF k] in auto)
  have "sel2_inv fd \<lparr>allset = {fd}, maxfd = fd, maxindex = -1, cfds = replicate 1024 (-1)\<rparr> h"
    if "no_conns h" "0 \<le> fd" "fd < 1024" for fd h
    using that by (auto simp: sel2_inv_def sel_inv_def no_conns_def keys_of_def one_each_def free_cfd_def)
  then show ?thesis
    unfolding select_server2_def wp_bnd
    by (intro wp_mono[OF init]) (auto simp: wp_simps fd_set_def intro!: loop)
qed

section \<open>Every ready connection is read once\<close>

text \<open>The descriptors that were read, oldest first.\<close>

fun reads :: "history \<Rightarrow> int list" where
  "reads [] = []"
| "reads ((c, r) # h) = reads h @ (case c of CRead fd n \<Rightarrow> [fd] | _ \<Rightarrow> [])"

abbreviation (input) ready :: "int set \<Rightarrow> int \<Rightarrow> bool" where
  "ready rset \<equiv> \<lambda>x. 0 \<le> x \<and> x \<in> rset"

lemma wp_sel_echo_reads: "wp (sel_echo k i) (\<lambda>_ h'. reads h' = reads h @ [i]) any_stop h"
  by (auto simp: sel_echo_def Read_ptr_def wp_simps Let_def)

lemma sel2_loop_reads:
  assumes "n = int (length (filter (ready rset) (map (\<lambda>j. cfds s ! j) is)))" and "distinct is"
    and "\<forall>j \<in> set is. j < length (cfds s)"
  shows "wp (for_brk is (sel2_body k rset) (s, n))
    (\<lambda>_ h'. reads h' = reads h @ filter (ready rset) (map (\<lambda>j. cfds s ! j) is)) any_stop h"
  using assms
proof (induction "is" arbitrary: s n h)
  case Nil
  then show ?case by (simp add: wp_simps)
next
  case (Cons i "is")
  let ?fd = "cfds s ! i"
  have d: "i \<notin> set is" "distinct is" "\<forall>j \<in> set is. j < length (cfds s)" using Cons.prems by auto
  show ?case
  proof (cases "ready rset ?fd")
    case False
    then show ?thesis
      using Cons.IH[of n s] Cons.prems d by (auto simp: sel2_body_def wp_simps Let_def)
  next
    case True
    let ?rest = "filter (ready rset) (map (\<lambda>j. cfds s ! j) is)"
    have n: "n - 1 = int (length ?rest)" using Cons.prems(1) True by simp
    have upd: "map (\<lambda>j. (cfds s)[i := x] ! j) is = map (\<lambda>j. cfds s ! j) is" for x
      using d(1) by (auto intro!: nth_list_update_neq)
    have next_s: "wp (if n - 1 = 0 then pure (s', n - 1) else for_brk is (sel2_body k rset) (s', n - 1))
        (\<lambda>_ h'. reads h' = reads h @ ?fd # ?rest) any_stop h1"
      if "reads h1 = reads h @ [?fd]" "cfds s' = cfds s \<or> cfds s' = (cfds s)[i := -1]" for s' h1
    proof -
      have m: "map (\<lambda>j. cfds s' ! j) is = map (\<lambda>j. cfds s ! j) is" using that(2) upd by auto
      have "wp (for_brk is (sel2_body k rset) (s', n - 1)) (\<lambda>_ h'. reads h' = reads h1 @ ?rest) any_stop h1"
        using Cons.IH[of "n - 1" s' h1] n d that(2) unfolding m by auto
      then show ?thesis using that(1) n by (auto simp: wp_simps filter_map elim!: wp_mono)
    qed
    let ?s = "\<lambda>closed. if closed then s\<lparr>cfds := (cfds s)[i := -1], allset := allset s - {?fd}\<rparr> else s"
    have body: "sel2_body k rset i (s, n) = bnd (sel_echo k ?fd) (\<lambda>closed. pure (n - 1 = 0, ?s closed, n - 1))"
      using True by (simp add: sel2_body_def Let_def)
    have rhs: "filter (ready rset) (map (\<lambda>j. cfds s ! j) (i # is)) = ?fd # ?rest" using True by simp
    show ?thesis
      unfolding for_brk.simps body wp_bnd wp_pure_fun prod.case rhs
      by (rule wp_mono[OF wp_sel_echo_reads]) (rule next_s, simp_all)
  qed
qed

section \<open>The properties\<close>

text \<open>
  C23. After every number of rounds the descriptor set of seclect/server.c is the listening
  socket and the accepted, not yet closed connections, and its upper bound is right: it is
  never below a descriptor of the set.
\<close>
theorem select_server_tracks_connections:
  assumes "accept_fresh k" and "select_server rounds k [] = (Inr (S, m), h)"
  shows "\<exists>fd. S = insert fd (open_conns h) \<and> fd \<notin> open_conns h \<and> S \<subseteq> {0..m} \<and> S \<subseteq> {0..<1024}"
proof -
  obtain fd where "sel_inv fd (S, m) h"
    using wp_InrD[OF sel_inv_main[OF assms(1)] assms(2)] by blast
  then show ?thesis by (intro exI[of _ fd]) (auto simp: sel_inv_def)
qed

text \<open>
  C9. After every number of rounds the array of seclect/server2.c holds exactly the accepted,
  not yet closed connections, its descriptor set those and the listening socket, nothing is
  stored above maxindex, and a free element is left: the exit for a full array is never
  taken, since a descriptor set holds fewer connections than the array.
\<close>
theorem select_server2_table:
  assumes "accept_fresh k" and "select_server2 rounds k [] = (Inr s, h)"
  shows "\<exists>fd. allset s = insert fd (open_conns h) \<and> {x \<in> set (cfds s). 0 \<le> x} = open_conns h \<and>
    {x \<in> set (drop (nat (maxindex s + 1)) (cfds s)). 0 \<le> x} = {} \<and> scan free_cfd (cfds s) 0 1024 < 1024"
proof -
  obtain fd where inv: "sel2_inv fd s h"
    using wp_InrD[OF sel2_inv_main[OF assms(1)] assms(2)] by blast
  have "{x \<in> set (cfds s). 0 \<le> x} = cfd_keys (cfds s)"
    by (auto simp: keys_of_def free_cfd_def)
  moreover have "{x \<in> set (drop (nat (maxindex s + 1)) (cfds s)). 0 \<le> x} = {}"
  proof -
    have "free_cfd x" if "x \<in> set (drop (nat (maxindex s + 1)) (cfds s))" for x
    proof -
      obtain j where "nat (maxindex s + 1) + j < 1024" "x = cfds s ! (nat (maxindex s + 1) + j)"
        using \<open>x \<in> _\<close> inv by (auto simp: in_set_conv_nth sel2_inv_def less_diff_conv add.commute)
      moreover have "maxindex s < int (nat (maxindex s + 1) + j)" using inv by (simp add: sel2_inv_def)
      ultimately show ?thesis using inv by (simp add: sel2_inv_def)
    qed
    then show ?thesis by (fastforce simp: free_cfd_def)
  qed
  ultimately show ?thesis
    using inv sel2_room[OF inv] by (auto simp: sel2_inv_def sel_inv_def)
qed

text \<open>
  C11. When the counter handed to the loop of seclect/server2.c is the number of ready
  connections in the array, the loop reads every one of them exactly once, in the order of
  the array, although it stops early; closing a connection does not disturb the others.
\<close>
theorem select_server2_serves_ready:
  assumes "n = int (length (filter (ready rset) (take (nat (maxindex s + 1)) (cfds s))))"
    and "sel2_scan k fd rset n s h = (Inr s', h')" and "maxindex s < int (length (cfds s))"
  shows "reads h' = reads h @ filter (ready rset) (take (nat (maxindex s + 1)) (cfds s))"
proof -
  let ?m = "nat (maxindex s + 1)"
  have m: "map (\<lambda>j. cfds s ! j) [0..<?m] = take ?m (cfds s)"
    using assms(3) by (intro nth_equalityI) auto
  have idx: "\<forall>j \<in> set [0..<?m]. j < length (cfds s)" using assms(3) by auto
  have "wp (sel2_scan k fd rset n s) (\<lambda>_ h'. reads h' = reads h @ filter (ready rset) (take ?m (cfds s))) any_stop h"
    using sel2_loop_reads[of n rset s "[0..<?m]" k h, unfolded m] idx assms(1)
    by (auto simp: sel2_scan_def wp_simps elim!: wp_mono)
  from wp_InrD[OF this assms(2)] show ?thesis .
qed

text \<open>
  Two rounds: the connection 7 is accepted, and its three bytes are read and echoed.
\<close>

definition select_demo :: kernel where
  "select_demo h c =
     (let r = script
        [mk_ret 3, mk_ret 0, mk_ret 0, mk_ret 0,
         mk_ret 1\<lparr>evs := [(3, 1)]\<rparr>, mk_ret 7,
         mk_ret 1\<lparr>evs := [(7, 1)]\<rparr>, mk_ret 3\<lparr>dat := ''abc''\<rparr>, mk_ret 3, mk_ret 3] h c in
      case c of CAccept l \<Rightarrow> if ret r \<in> open_conns h \<or> ret r = l then mk_ret (-1) else r | _ \<Rightarrow> r)"

lemma select_demo_fresh: "accept_fresh select_demo"
  by (auto simp: accept_fresh_def select_demo_def Let_def)

lemmas select_run_simps = open_listener_def wrapper_defs sel_echo_def Let_def io_simps select_demo_def script_def
  fd_set_def

theorem select_server_tracks_connections_witness:
  "\<exists>S m h. select_server (Suc (Suc 0)) select_demo [] = (Inr (S, m), h) \<and> open_conns h = {7} \<and>
    (\<exists>fd. S = insert fd (open_conns h) \<and> S \<subseteq> {0..m})"
proof -
  obtain S m h where h: "select_server (Suc (Suc 0)) select_demo [] = (Inr (S, m), h)" "open_conns h = {7}"
    by (simp add: select_server_def sel_round_def sel_scan_def sel_accept_def sel_body_def select_run_simps
        upto_rec_numeral upto.simps)
  from select_server_tracks_connections[OF select_demo_fresh h(1)] h show ?thesis by blast
qed

theorem select_server2_table_witness:
  "\<exists>s h. select_server2 (Suc (Suc 0)) select_demo [] = (Inr s, h) \<and> open_conns h = {7} \<and>
    {x \<in> set (cfds s). 0 \<le> x} = {7} \<and> scan free_cfd (cfds s) 0 1024 < 1024"
proof -
  obtain s h where h: "select_server2 (Suc (Suc 0)) select_demo [] = (Inr s, h)" "open_conns h = {7}"
    by (simp add: select_server2_def sel2_round_def sel2_scan_def sel2_accept_def sel2_body_def select_run_simps
        free_cfd_def scan_numeral)
  from select_server2_table[OF select_demo_fresh h(1)] h show ?thesis by auto
qed

definition four_cfds :: sel2 where
  "four_cfds = \<lparr>allset = {3, 5, 7, 9}, maxfd = 9, maxindex = 3, cfds = [7, 5, -1, 9, -1]\<rparr>"

theorem select_server2_serves_ready_witness:
  "\<exists>s' h'. sel2_scan (\<lambda>_ _. mk_ret 0) 3 {7, 9} 2 four_cfds [] = (Inr s', h') \<and> reads h' = [7, 9]"
proof -
  obtain s' h' where h: "sel2_scan (\<lambda>_ _. mk_ret 0) 3 {7, 9} 2 four_cfds [] = (Inr s', h')"
    by (simp add: sel2_scan_def sel2_body_def four_cfds_def select_run_simps upt_rec)
  have f: "filter (ready {7, 9}) (take (nat (maxindex four_cfds + 1)) (cfds four_cfds)) = [7, 9]"
    by (simp add: four_cfds_def)
  have "reads h' = reads [] @ filter (ready {7, 9}) (take (nat (maxindex four_cfds + 1)) (cfds four_cfds))"
    by (rule select_server2_serves_ready[OF _ h]) (unfold f, simp_all add: four_cfds_def)
  then have "reads h' = [7, 9]" unfolding f by simp
  then show ?thesis using h by blast
qed

end
