(* ===== verification/Poll_Server.thy ===== *)
theory Poll_Server
  imports Wrappers Slots
begin

text \<open>
  The server of \<^verbatim>\<open>poll/pollServer.c\<close>: an array of 1024 poll entries, the
  listening socket in the first, and a count \<open>max\<close> that bounds the part of the array
  that is polled. The field \<^verbatim>\<open>revents\<close> is not initialised: it holds a value only
  after the entry has been polled. \<^verbatim>\<open>POLL_IN\<close> is 1, the value of
  \<^verbatim>\<open>POLLIN\<close>; every entry's \<^verbatim>\<open>events\<close> is that.
\<close>

section \<open>The server\<close>

record pfd =
  p_fd :: int
  p_rev :: "32 word option"

abbreviation (input) OPEN_MAX :: nat where "OPEN_MAX \<equiv> 1024"
abbreviation (input) POLL_IN :: "32 word" where "POLL_IN \<equiv> 1"

text \<open>
  The events a poll reports are pairs of an index and a mask; the entries polled but not
  reported get 0.
\<close>

definition poll_store :: "nat \<Rightarrow> (int \<times> 32 word) list \<Rightarrow> pfd list \<Rightarrow> pfd list" where
  "poll_store n es ps =
     map (\<lambda>i. if i < n then (ps ! i)\<lparr>p_rev := Some (case map_of es (int i) of None \<Rightarrow> 0 | Some m \<Rightarrow> m)\<rparr>
              else ps ! i) [0..<length ps]"

definition free_pfd :: "pfd \<Rightarrow> bool" where
  "free_pfd p \<longleftrightarrow> p_fd p = -1"

definition poll_accept :: "kernel \<Rightarrow> int \<Rightarrow> pfd list \<times> nat \<Rightarrow> (pfd list \<times> nat) io" where
  "poll_accept k fd s =
     bnd (Accept k fd) (\<lambda>cfd. let ps = fst s; i = scan free_pfd ps 1 1023 in
       pure (if i < OPEN_MAX then ps[i := (ps ! i)\<lparr>p_fd := cfd\<rparr>] else ps, snd s + 1))"

definition poll_body :: "kernel \<Rightarrow> nat \<Rightarrow> pfd list \<Rightarrow> pfd list io" where
  "poll_body k i ps =
     (if \<not> i < OPEN_MAX then halt (Undef OutOfBounds)
      else case p_rev (ps ! i) of
             None \<Rightarrow> halt (Undef UninitUse)
           | Some m \<Rightarrow>
               let close_entry = bnd (sys k (CClose (p_fd (ps ! i)))) (\<lambda>_. pure (ps[i := (ps ! i)\<lparr>p_fd := -1\<rparr>])) in
               if m = POLL_IN
               then bnd (Read_ptr k (p_fd (ps ! i)) BUFSIZ) (\<lambda>r.
                 if ret r = 0 then close_entry
                 else if 0 < ret r
                 then let b = take (nat (ret r)) (dat r) in
                      bnd (wr k (CWrite (p_fd (ps ! i)) b)) (\<lambda>_.
                      bnd (sys k (CWrite STDOUT_FILENO b)) (\<lambda>_. pure ps))
                 else if err r = ECONNRESET then close_entry else pure ps)
               else pure ps)"

definition poll_scan :: "kernel \<Rightarrow> pfd list \<times> nat \<Rightarrow> (pfd list \<times> nat) io" where
  "poll_scan k s = bnd (for_io [1..<Suc (snd s)] (poll_body k) (fst s)) (\<lambda>ps. pure (ps, snd s))"

definition poll_round :: "kernel \<Rightarrow> int \<Rightarrow> pfd list \<times> nat \<Rightarrow> (pfd list \<times> nat) io" where
  "poll_round k fd s =
     (let n = snd s + 1 in
      if OPEN_MAX < n then halt (Undef OutOfBounds)
      else bnd (sys k (CPoll (map (\<lambda>p. (p_fd p, POLL_IN)) (take n (fst s))) n (-1))) (\<lambda>r.
        let ps = poll_store n (evs r) (fst s) in
        if ret r < 0 then sys_err
        else if p_rev (ps ! 0) = Some POLL_IN
        then bnd (poll_accept k fd (ps, snd s)) (\<lambda>s. if ret r - 1 = 0 then pure s else poll_scan k s)
        else poll_scan k (ps, snd s)))"

definition poll_start :: "int \<Rightarrow> pfd list" where
  "poll_start fd = \<lparr>p_fd = fd, p_rev = None\<rparr> # replicate 1023 \<lparr>p_fd = -1, p_rev = None\<rparr>"

definition poll_server :: "nat \<Rightarrow> kernel \<Rightarrow> (pfd list \<times> nat) io" where
  "poll_server rounds k =
     bnd (open_listener k True 9999) (\<lambda>fd. times rounds (poll_round k fd) (poll_start fd, 0))"

section \<open>What the server keeps\<close>

interpretation pfd: slot_table free_pfd p_fd "\<lambda>v p. p\<lparr>p_fd := v\<rparr>" "\<lambda>p. p\<lparr>p_fd := -1\<rparr>" "\<lambda>v. 0 \<le> v"
  by unfold_locales (auto simp: free_pfd_def)

text \<open>How many connections have been accepted.\<close>

fun accepts :: "history \<Rightarrow> nat" where
  "accepts [] = 0"
| "accepts ((c, r) # h) = accepts h + (case c of CAccept l \<Rightarrow> if 0 \<le> ret r then 1 else 0 | _ \<Rightarrow> 0)"

abbreviation (input) pfd_keys :: "pfd list \<Rightarrow> int set" where "pfd_keys \<equiv> keys_of free_pfd p_fd"

definition table_ok :: "int \<Rightarrow> pfd list \<Rightarrow> nat \<Rightarrow> history \<Rightarrow> bool" where
  "table_ok fd ps mx h \<longleftrightarrow> pfd_keys ps = insert fd (open_conns h) \<and> fd \<notin> open_conns h \<and>
     (\<forall>c \<in> open_conns h. 0 \<le> c) \<and> one_each free_pfd p_fd ps \<and>
     (\<forall>j < 1024. mx < j \<longrightarrow> free_pfd (ps ! j))"

definition poll_inv :: "int \<Rightarrow> pfd list \<times> nat \<Rightarrow> history \<Rightarrow> bool" where
  "poll_inv fd s h \<longleftrightarrow> length (fst s) = 1024 \<and> p_fd (fst s ! 0) = fd \<and> fd \<noteq> -1 \<and> snd s = accepts h \<and>
     (snd s < 1024 \<longrightarrow> table_ok fd (fst s) (snd s) h)"

text \<open>Only the descriptors matter to the table.\<close>

lemma table_ok_fds:
  assumes "map p_fd ps' = map p_fd ps" and "length ps = 1024"
    and "open_conns h' = open_conns h" and "table_ok fd ps mx h"
  shows "table_ok fd ps' mx h'"
proof -
  have l: "length ps' = 1024" using assms(1,2) by (metis length_map)
  have nth: "i < 1024 \<Longrightarrow> p_fd (ps' ! i) = p_fd (ps ! i)" for i
    using assms(1,2) l by (metis nth_map)
  have "pfd_keys ps' = pfd_keys ps"
  proof (rule set_eqI)
    fix v
    show "v \<in> pfd_keys ps' \<longleftrightarrow> v \<in> pfd_keys ps"
      unfolding keys_of_iff free_pfd_def l assms(2) using nth by metis
  qed
  moreover have "one_each free_pfd p_fd ps' = one_each free_pfd p_fd ps"
    using nth l assms(2) by (auto simp: one_each_def free_pfd_def)
  ultimately show ?thesis
    using assms(3,4) nth by (auto simp: table_ok_def free_pfd_def)
qed

lemma poll_store_fds: "map p_fd (poll_store n es ps) = map p_fd ps" "length (poll_store n es ps) = length ps"
  by (auto simp: poll_store_def intro!: nth_equalityI)

lemma poll_inv_store:
  assumes "poll_inv fd (ps, mx) h" and "open_conns h' = open_conns h" and "accepts h' = accepts h"
  shows "poll_inv fd (poll_store n es ps, mx) h'"
proof -
  have "p_fd (poll_store n es ps ! 0) = p_fd (ps ! 0)"
    using assms(1) poll_store_fds[of n es ps] by (metis fst_conv length_map nth_map poll_inv_def zero_less_numeral)
  then show ?thesis
    using assms table_ok_fds[OF poll_store_fds(1)] poll_store_fds(2)[of n es ps]
    by (auto simp: poll_inv_def)
qed

lemma poll_inv_accept:
  assumes k: "accept_fresh k" and inv: "poll_inv fd (ps, mx) h"
  shows "wp (poll_accept k fd (ps, mx)) (poll_inv fd) any_stop h"
proof -
  let ?c = "ret (k h (CAccept fd))" and ?i = "scan free_pfd ps 1 1023"
  let ?h = "(CAccept fd, k h (CAccept fd)) # h"
  let ?ps = "if ?i < 1024 then ps[?i := (ps ! ?i)\<lparr>p_fd := ?c\<rparr>] else ps"
  have l: "length ps = 1024" using inv by (simp add: poll_inv_def)
  have i: "1 \<le> ?i" using scan_bounds[of 1 free_pfd ps 1023] by simp
  have "table_ok fd ?ps (mx + 1) ?h" if c: "0 \<le> ?c" and mx: "mx + 1 < 1024"
  proof -
    have t: "table_ok fd ps mx h" using inv mx by (auto simp: poll_inv_def)
    have "?i \<le> mx + 1"
    proof (rule ccontr)
      assume "\<not> ?i \<le> mx + 1"
      then have "\<not> free_pfd (ps ! (mx + 1))" using scan_before[of 1 "mx + 1" free_pfd ps 1023] by simp
      then show False using t mx by (simp add: table_ok_def)
    qed
    then have lt: "?i < 1024" using mx by simp
    then have f: "free_pfd (ps ! ?i)" using scan_found[of free_pfd ps 1 1023] by simp
    have new: "?c \<notin> pfd_keys ps" using t accept_freshD[OF k c] by (simp add: table_ok_def)
    have "pfd_keys ?ps = insert fd (open_conns ?h)"
      using pfd.fill_keys[OF c, of ?i ps] lt l f t c by (simp add: table_ok_def insert_commute)
    moreover have "one_each free_pfd p_fd ?ps"
      using pfd.fill_one_each[OF c, of ?i ps] lt l t new by (simp add: table_ok_def)
    moreover have "\<forall>j < 1024. mx + 1 < j \<longrightarrow> free_pfd (?ps ! j)"
      using t lt l \<open>?i \<le> mx + 1\<close> by (auto simp: table_ok_def nth_list_update)
    ultimately show ?thesis
      using t c accept_freshD(2)[OF k c] by (auto simp: table_ok_def)
  qed
  moreover have "length ?ps = 1024" "p_fd (?ps ! 0) = fd" "fd \<noteq> -1" "mx = accepts h"
    using inv l i by (auto simp: poll_inv_def)
  ultimately show ?thesis
    by (auto simp: poll_accept_def Accept_def wp_simps Let_def poll_inv_def)
qed

lemma poll_inv_close:
  assumes inv: "poll_inv fd (ps, mx) h" and i: "1 \<le> i" "i < 1024"
    and h': "open_conns h' = open_conns h - {p_fd (ps ! i)}" "accepts h' = accepts h"
  shows "poll_inv fd (ps[i := (ps ! i)\<lparr>p_fd := -1\<rparr>], mx) h'"
proof -
  have l: "length ps = 1024" using inv by (simp add: poll_inv_def)
  have "table_ok fd (ps[i := (ps ! i)\<lparr>p_fd := -1\<rparr>]) mx h'" if "mx < 1024"
  proof -
    have t: "table_ok fd ps mx h" using inv that by (auto simp: poll_inv_def)
    show ?thesis
    proof (cases "free_pfd (ps ! i)")
      case True
      then have "p_fd (ps ! i) \<notin> open_conns h" using t by (force simp: table_ok_def free_pfd_def)
      moreover have "map p_fd (ps[i := (ps ! i)\<lparr>p_fd := -1\<rparr>]) = map p_fd ps"
        using True i l by (simp add: map_update free_pfd_def list_update_same_conv)
      ultimately show ?thesis using table_ok_fds[OF _ l _ t] h'(1) by simp
    next
      case False
      have one: "one_each free_pfd p_fd ps" using t by (simp add: table_ok_def)
      have z: "p_fd (ps ! 0) = fd" "fd \<noteq> -1" using inv by (simp_all add: poll_inv_def)
      have "p_fd (ps ! i) \<noteq> fd"
        using one[unfolded one_each_def, rule_format, of i 0] i l False z by (auto simp: free_pfd_def)
      moreover have "pfd_keys (ps[i := (ps ! i)\<lparr>p_fd := -1\<rparr>]) = pfd_keys ps - {p_fd (ps ! i)}"
        using pfd.clear_keys[OF one _ False] i l by simp
      moreover have "\<forall>j < 1024. mx < j \<longrightarrow> free_pfd (ps[i := (ps ! i)\<lparr>p_fd := -1\<rparr>] ! j)"
        using t i l by (auto simp: table_ok_def nth_list_update free_pfd_def)
      ultimately show ?thesis
        using t h'(1) pfd.clear_one_each[OF one] by (auto simp: table_ok_def)
    qed
  qed
  then show ?thesis using inv i l h'(2) by (auto simp: poll_inv_def)
qed

lemma poll_inv_quiet:
  "poll_inv fd s h \<Longrightarrow> open_conns h' = open_conns h \<Longrightarrow> accepts h' = accepts h \<Longrightarrow> poll_inv fd s h'"
  by (auto simp: poll_inv_def table_ok_def)

lemma poll_inv_body:
  assumes inv: "poll_inv fd (ps, mx) h" and i: "1 \<le> i"
  shows "wp (poll_body k i ps) (\<lambda>ps. poll_inv fd (ps, mx)) any_stop h"
  using inv poll_inv_close[OF inv i] poll_inv_quiet[OF inv]
  by (auto simp: poll_body_def Read_ptr_def wp_simps Let_def split: option.split)

lemma poll_inv_scan:
  assumes "poll_inv fd s h"
  shows "wp (poll_scan k s) (poll_inv fd) any_stop h"
proof -
  have "wp (for_io [1..<Suc (snd s)] (poll_body k) (fst s)) (\<lambda>ps. poll_inv fd (ps, snd s)) any_stop h"
    using assms by (intro wp_for_io[where I = "\<lambda>ps. poll_inv fd (ps, snd s)"] poll_inv_body) auto
  then show ?thesis by (auto simp: poll_scan_def wp_simps elim!: wp_mono)
qed

lemma poll_inv_round:
  assumes k: "accept_fresh k" and inv: "poll_inv fd s h"
  shows "wp (poll_round k fd s) (poll_inv fd) any_stop h"
proof -
  obtain ps mx where s: "s = (ps, mx)" by (cases s)
  have "poll_inv fd (poll_store n es ps, mx) ((CPoll xs m t, r) # h)" for n es xs m t r
    using inv poll_inv_store unfolding s by simp
  then show ?thesis
    unfolding s poll_round_def
    by (auto simp: wp_simps Let_def intro!: wp_mono[OF poll_inv_accept[OF k]] poll_inv_scan)
qed

lemma poll_inv_start:
  assumes "fd \<noteq> -1" and "no_conns h" and "accepts h = 0"
  shows "poll_inv fd (poll_start fd, 0) h"
proof -
  have nth: "poll_start fd ! j = \<lparr>p_fd = -1, p_rev = None\<rparr>" if "0 < j" "j < 1024" for j
    using that by (simp add: poll_start_def nth_Cons')
  have set: "set (poll_start fd) = {\<lparr>p_fd = fd, p_rev = None\<rparr>, \<lparr>p_fd = -1, p_rev = None\<rparr>}"
    by (auto simp: poll_start_def)
  have "one_each free_pfd p_fd (poll_start fd)"
    unfolding one_each_def using nth by (auto simp: poll_start_def free_pfd_def nth_Cons')
  moreover have "{p \<in> set (poll_start fd). \<not> free_pfd p} = {\<lparr>p_fd = fd, p_rev = None\<rparr>}"
    using assms(1) unfolding set by (auto simp: free_pfd_def)
  ultimately have "table_ok fd (poll_start fd) 0 h"
    using assms nth by (auto simp: table_ok_def no_conns_def keys_of_def free_pfd_def)
  then show ?thesis using assms by (simp add: poll_inv_def) (simp add: poll_start_def)
qed

lemma poll_inv_main:
  assumes k: "accept_fresh k"
  shows "wp (poll_server rounds k) (\<lambda>s h. \<exists>fd. poll_inv fd s h) any_stop []"
proof -
  have init: "wp (open_listener k True 9999) (\<lambda>fd h. fd \<noteq> -1 \<and> no_conns h \<and> accepts h = 0) any_stop []"
    by (rule wp_open_listener[where I = "\<lambda>h. no_conns h \<and> accepts h = 0"])
      (simp add: no_conns_def, auto intro: no_conns_opening simp: opening_call_def split: call.splits)
  have loop: "wp (times rounds (poll_round k fd) s) (\<lambda>s h. \<exists>fd. poll_inv fd s h) any_stop h"
    if "poll_inv fd s h" for fd s h
    by (rule wp_mono[OF wp_times[where I = "poll_inv fd"]]) (use that poll_inv_round[OF k] in auto)
  show ?thesis
    unfolding poll_server_def wp_bnd
    by (rule wp_mono[OF init]) (auto intro!: loop poll_inv_start)
qed

section \<open>The properties\<close>

text \<open>
  C12. The count max of pollServer.c is the number of connections ever accepted: it is never
  lowered. As long as it is below 1024 the array holds exactly the listening socket and the
  open connections; once 1024 connections have been accepted, even if all but a few have been
  closed, the next round polls past the end of the array.
\<close>
theorem poll_server_counts_accepts:
  assumes "accept_fresh k" and "poll_server rounds k [] = (Inr (ps, mx), h)"
  shows "mx = accepts h \<and>
    (if mx < 1024 then \<exists>fd. {p_fd p | p. p \<in> set ps \<and> p_fd p \<noteq> -1} = insert fd (open_conns h) \<and> fd \<notin> open_conns h
     else \<forall>fd. poll_round k fd (ps, mx) h = (Inl (Undef OutOfBounds), h))"
proof -
  obtain fd where inv: "poll_inv fd (ps, mx) h"
    using wp_InrD[OF poll_inv_main[OF assms(1)] assms(2)] by blast
  have "{p_fd p | p. p \<in> set ps \<and> p_fd p \<noteq> -1} = pfd_keys ps"
    by (auto simp: keys_of_def free_pfd_def)
  then show ?thesis
    using inv by (auto simp: poll_inv_def table_ok_def poll_round_def Let_def io_simps)
qed

lemma poll_store_nth:
  "i < length ps \<Longrightarrow> poll_store n es ps ! i =
     (if i < n then (ps ! i)\<lparr>p_rev := Some (case map_of es (int i) of None \<Rightarrow> 0 | Some m \<Rightarrow> m)\<rparr> else ps ! i)"
  by (simp add: poll_store_def)

lemma poll_start_nth:
  "poll_start fd ! 0 = \<lparr>p_fd = fd, p_rev = None\<rparr>" "poll_start fd ! Suc 0 = \<lparr>p_fd = -1, p_rev = None\<rparr>"
  "length (poll_start fd) = 1024"
  by (simp_all add: poll_start_def)

definition poll_demo :: kernel where
  "poll_demo h c =
     (let r = script
        [mk_ret 3, mk_ret 0, mk_ret 0, mk_ret 0,
         mk_ret 1\<lparr>evs := [(0, 1)]\<rparr>, mk_ret 7,
         mk_ret 1\<lparr>evs := [(1, 1)]\<rparr>, mk_ret 0, mk_ret 0] h c in
      case c of CAccept l \<Rightarrow> if ret r \<in> open_conns h \<or> ret r = l then mk_ret (-1) else r | _ \<Rightarrow> r)"

lemma poll_demo_fresh: "accept_fresh poll_demo"
  by (auto simp: accept_fresh_def poll_demo_def Let_def)

text \<open>The connection 7 is accepted and closed again: the count stays at 1.\<close>

theorem poll_server_counts_accepts_witness:
  "\<exists>ps h. poll_server (Suc (Suc 0)) poll_demo [] = (Inr (ps, 1), h) \<and> open_conns h = {} \<and> accepts h = 1 \<and>
    (\<exists>fd. {p_fd p | p. p \<in> set ps \<and> p_fd p \<noteq> -1} = {fd})"
proof -
  obtain ps h where h: "poll_server (Suc (Suc 0)) poll_demo [] = (Inr (ps, 1), h)" "open_conns h = {}"
    by (simp add: poll_server_def poll_round_def poll_accept_def poll_scan_def poll_body_def open_listener_def
        wrapper_defs Let_def io_simps poll_demo_def script_def poll_store_nth poll_start_nth free_pfd_def
        scan_numeral poll_store_fds upt_rec)
  from poll_server_counts_accepts[OF poll_demo_fresh h(1)] h(2)
  have "accepts h = 1" "\<exists>fd. {p_fd p | p. p \<in> set ps \<and> p_fd p \<noteq> -1} = {fd}" by auto
  then show ?thesis using h by blast
qed

text \<open>
  When poll reports a new connection together with any other event, while the slot after
  the polled ones has never been polled, the round reads that slot's revents before anything
  has stored there (unless a call fails first): it never completes.
\<close>
theorem poll_round_reads_uninitialised:
  assumes "length ps = 1024" and "mx + 1 < 1024" and "p_rev (ps ! (mx + 1)) = None"
    and "map_of (evs (k h (CPoll (map (\<lambda>p. (p_fd p, 1)) (take (mx + 1) ps)) (mx + 1) (-1)))) 0 = Some 1"
    and "ret (k h (CPoll (map (\<lambda>p. (p_fd p, 1)) (take (mx + 1) ps)) (mx + 1) (-1))) \<noteq> 1"
  shows "\<exists>e h'. poll_round k fd (ps, mx) h = (Inl e, h')"
proof -
  let ?r = "k h (CPoll (map (\<lambda>p. (p_fd p, 1)) (take (mx + 1) ps)) (mx + 1) (-1))"
  let ?ps = "poll_store (mx + 1) (evs ?r) ps"
  let ?never = "\<lambda>_ _. False"
  have scan: "wp (poll_scan k (qs, mx + 1)) ?never any_stop h'"
    if "length qs = 1024 \<and> p_rev (qs ! (mx + 1)) = None" for qs h'
  proof -
    let ?I = "\<lambda>qs (h :: history). length qs = 1024 \<and> p_rev (qs ! (mx + 1)) = None"
    have "wp (poll_body k i qs) ?I any_stop h'" if "i \<in> set [1..<Suc mx]" "?I qs h'" for i qs h'
      using that by (auto simp: poll_body_def Read_ptr_def wp_simps Let_def split: option.split)
    then have "wp (for_io [1..<Suc mx] (poll_body k) qs) ?I any_stop h'"
      using that by (intro wp_for_io) auto
    moreover have "wp (poll_body k (mx + 1) qs) ?never any_stop h'" if "?I qs h'" for qs h'
      using that assms(2) by (simp add: poll_body_def wp_simps)
    ultimately have "wp (for_io ([1..<Suc mx] @ [mx + 1]) (poll_body k) qs) ?never any_stop h'"
      by (auto simp: for_io_append wp_simps elim!: wp_mono)
    moreover have "[1..<Suc (mx + 1)] = [1..<Suc mx] @ [mx + 1]" by simp
    ultimately show ?thesis by (simp add: poll_scan_def wp_simps)
  qed
  have len: "length ?ps = 1024" using assms(1) by (simp add: poll_store_fds)
  have rev0: "p_rev (?ps ! 0) = Some 1" and rev: "p_rev (?ps ! (mx + 1)) = None"
    using assms by (auto simp: poll_store_def)
  have acc: "wp (poll_accept k fd (?ps, mx)) (\<lambda>s h. \<exists>qs. s = (qs, mx + 1) \<and> length qs = 1024 \<and> p_rev (qs ! (mx + 1)) = None)
      any_stop h'" for h'
    using len rev by (auto simp: poll_accept_def Accept_def wp_simps Let_def nth_list_update)
  have "wp (bnd (poll_accept k fd (?ps, mx)) (\<lambda>s. if ret ?r - 1 = 0 then pure s else poll_scan k s)) ?never any_stop h'"
    for h' unfolding wp_bnd by (rule wp_mono[OF acc]) (use scan assms(5) in \<open>auto simp: wp_simps\<close>)
  then have "wp (poll_round k fd (ps, mx)) ?never any_stop h"
    using assms(2) rev0 by (simp add: poll_round_def Let_def wp_simps)
  then show ?thesis by (auto simp: wp_def split: prod.splits sum.splits)
qed

text \<open>
  The first connection has been accepted and polled; now it has data and a second one arrives.
\<close>

theorem poll_round_reads_uninitialised_witness:
  "\<exists>e h'. poll_round (\<lambda>h c. case c of CPoll xs n t \<Rightarrow> mk_ret 2\<lparr>evs := [(0, 1), (1, 1)]\<rparr> | CAccept l \<Rightarrow> mk_ret 8
      | CRead fd n \<Rightarrow> mk_ret 1\<lparr>dat := ''x''\<rparr> | _ \<Rightarrow> mk_ret 1) 3
    ((poll_start 3)[1 := \<lparr>p_fd = 7, p_rev = Some 0\<rparr>], 1) [] = (Inl e, h')"
  by (rule poll_round_reads_uninitialised) (simp_all add: poll_start_def)

end
