(* ===== verification/Echo_Service.thy ===== *)
theory Echo_Service
  imports Select_Servers Poll_Server
begin

text \<open>
  What the servers built on \<^verbatim>\<open>select\<close> and \<^verbatim>\<open>poll\<close> promise each client, whatever
  table they keep: its bytes come back in order and at most once, converted, and mixed with nobody else's; all of them when
  no write falls short.
\<close>

section \<open>The contract\<close>

text \<open>
  What a client sees: the bytes that \<^verbatim>\<open>write\<close> has taken for it are some of those read from it, converted and in
  order, and they are all of them just when no write failed or was short.
\<close>

definition echoes :: "(char \<Rightarrow> char) \<Rightarrow> history \<Rightarrow> bool" where
  "echoes conv h \<longleftrightarrow> (\<forall>c. c \<noteq> STDOUT_FILENO \<longrightarrow>
     subseq (put_on c h) (map conv (got_on c h)) \<and> (put_on c h = map conv (got_on c h) \<longleftrightarrow> whole_writes c h))"

text \<open>What the servers keep: everything read from a connection has been handed to \<^verbatim>\<open>write\<close> for it.\<close>

definition echoed :: "(char \<Rightarrow> char) \<Rightarrow> history \<Rightarrow> bool" where
  "echoed conv h \<longleftrightarrow> (\<forall>c. c \<noteq> STDOUT_FILENO \<longrightarrow> handed_on c h = map conv (got_on c h))"

lemma echoed_echoes: "echoed conv h \<Longrightarrow> echoes conv h"
  using put_on_subseq put_on_whole by (simp add: echoed_def echoes_def) metis

lemma echoed_Nil [simp]: "echoed conv []"
  by (simp add: echoed_def)

lemma echoed_quiet [simp]:
  "echoed conv ((CClose fd, r) # h) = echoed conv h"
  "echoed conv ((CAccept fd, r) # h) = echoed conv h"
  "echoed conv ((CSelect n S, r) # h) = echoed conv h"
  "echoed conv ((CPoll ps m t, r) # h) = echoed conv h"
  by (simp_all add: echoed_def)

lemma echoed_opening: "opening_call c \<Longrightarrow> echoed conv h \<Longrightarrow> echoed conv ((c, r) # h)"
  by (auto simp: opening_call_def echoed_def split: call.splits)

text \<open>A round that keeps it, whether it goes on or stops; and the server that makes such rounds.\<close>

locale echo_rounds =
  fixes round :: "kernel \<Rightarrow> int \<Rightarrow> 's \<Rightarrow> 's io" and conv :: "char \<Rightarrow> char"
  assumes round_law: "echoed conv h \<Longrightarrow> wp (round k fd s) (\<lambda>_. echoed conv) (\<lambda>_. echoed conv) h"
begin

lemma loop: "echoed conv h \<Longrightarrow> wp (times n (round k fd) s) (\<lambda>_. echoed conv) (\<lambda>_. echoed conv) h"
  by (rule wp_times[where I = "\<lambda>_. echoed conv", OF round_law])

lemma server:
  assumes "\<And>fd h. echoed conv h \<Longrightarrow> wp (start fd) (\<lambda>_. echoed conv) (\<lambda>_. echoed conv) h"
  shows "echoed conv (snd (bnd (open_listener k reuse p) (\<lambda>fd. bnd (start fd) (times n (round k fd))) []))"
proof -
  have "wp (bnd (open_listener k reuse p) (\<lambda>fd. bnd (start fd) (times n (round k fd))))
      (\<lambda>_. echoed conv) (\<lambda>_. echoed conv) []"
    unfolding wp_bnd
    by (rule wp_mono[OF wp_open_listener_keeps[of "echoed conv"]])
      (auto intro: echoed_opening wp_mono[OF assms] loop)
  then show ?thesis by (simp add: wp_def split: prod.splits sum.splits)
qed

end

section \<open>The three servers\<close>

lemma echoed_sel_echo: "echoed to_upper h \<Longrightarrow> wp (sel_echo k i) (\<lambda>_. echoed to_upper) (\<lambda>_. echoed to_upper) h"
  by (auto simp: sel_echo_def Read_ptr_def wp_simps Let_def echoed_def simp del: of_nat_numeral)

lemma echoed_accept: "echoed conv h \<Longrightarrow> wp (Accept k fd) (\<lambda>_. echoed conv) (\<lambda>_. echoed conv) h"
  by (simp add: Accept_def wp_simps)

lemma wp_lift_keeps: "I h \<Longrightarrow> wp (lift x) (\<lambda>_. I) (\<lambda>_. I) h"
  by (cases x) (simp_all add: wp_simps)

interpretation sel: echo_rounds sel_round to_upper
proof
  fix h k fd s
  assume h: "echoed to_upper h"
  have body: "wp (sel_body k rset i a) (\<lambda>_. echoed to_upper) (\<lambda>_. echoed to_upper) h" if "echoed to_upper h" for rset i a h
    using that by (auto simp: sel_body_def wp_simps intro: wp_mono[OF echoed_sel_echo])
  have scan: "wp (sel_scan k fd rset n s) (\<lambda>_. echoed to_upper) (\<lambda>_. echoed to_upper) h" if "echoed to_upper h" for rset n s h
    using that by (auto simp: sel_scan_def wp_simps intro!: wp_for_io[where I = "\<lambda>_. echoed to_upper"] body)
  have accept: "wp (sel_accept k fd s) (\<lambda>_. echoed to_upper) (\<lambda>_. echoed to_upper) h" if "echoed to_upper h" for s h
    using that by (auto simp: sel_accept_def wp_simps intro!: wp_mono[OF echoed_accept] wp_lift_keeps)
  show "wp (sel_round k fd s) (\<lambda>_. echoed to_upper) (\<lambda>_. echoed to_upper) h"
    using h by (auto simp: sel_round_def wp_simps Let_def intro!: scan wp_mono[OF accept])
qed

interpretation sel2: echo_rounds sel2_round to_upper
proof
  fix h k fd s
  assume h: "echoed to_upper h"
  have body: "wp (sel2_body k rset i sn) (\<lambda>_. echoed to_upper) (\<lambda>_. echoed to_upper) h"
    if "echoed to_upper h" for rset i sn h
    using that by (auto simp: sel2_body_def wp_simps Let_def intro: wp_mono[OF echoed_sel_echo])
  have scan: "wp (sel2_scan k fd rset n s) (\<lambda>_. echoed to_upper) (\<lambda>_. echoed to_upper) h"
    if "echoed to_upper h" for rset n s h
    using that
    by (auto simp: sel2_scan_def wp_simps intro!: wp_for_brk[where I = "\<lambda>_. echoed to_upper"] wp_mono[OF body])
  have accept: "wp (sel2_accept k fd s) (\<lambda>_. echoed to_upper) (\<lambda>_. echoed to_upper) h" if "echoed to_upper h" for s h
    using that by (auto simp: sel2_accept_def wp_simps Let_def intro!: wp_mono[OF echoed_accept] wp_lift_keeps)
  show "wp (sel2_round k fd s) (\<lambda>_. echoed to_upper) (\<lambda>_. echoed to_upper) h"
    using h by (auto simp: sel2_round_def wp_simps Let_def intro!: scan wp_mono[OF accept])
qed

interpretation poll: echo_rounds poll_round "\<lambda>c. c"
proof
  fix h k fd s
  assume h: "echoed (\<lambda>c. c) h"
  have body: "wp (poll_body k i ps) (\<lambda>_. echoed (\<lambda>c. c)) (\<lambda>_. echoed (\<lambda>c. c)) h" if "echoed (\<lambda>c. c) h" for i ps h
    using that by (auto simp: poll_body_def Read_ptr_def wp_simps Let_def echoed_def simp del: of_nat_numeral split: option.split)
  have scan: "wp (poll_scan k s) (\<lambda>_. echoed (\<lambda>c. c)) (\<lambda>_. echoed (\<lambda>c. c)) h" if "echoed (\<lambda>c. c) h" for s h
    using that by (auto simp: poll_scan_def wp_simps intro!: wp_for_io[where I = "\<lambda>_. echoed (\<lambda>c. c)"] body)
  have accept: "wp (poll_accept k fd s) (\<lambda>_. echoed (\<lambda>c. c)) (\<lambda>_. echoed (\<lambda>c. c)) h" if "echoed (\<lambda>c. c) h" for s h
    using that by (auto simp: poll_accept_def wp_simps Let_def intro!: wp_mono[OF echoed_accept])
  show "wp (poll_round k fd s) (\<lambda>_. echoed (\<lambda>c. c)) (\<lambda>_. echoed (\<lambda>c. c)) h"
    using h by (auto simp: poll_round_def wp_simps Let_def intro!: scan wp_mono[OF accept])
qed

text \<open>
  C10. The two select servers and the poll server on any kernel, after any number of rounds and also where they stop: the bytes that
  their writes have put on a connection's descriptor are bytes they have read from it, in order and each at most once,
  the select servers in upper case, the poll server unchanged; and they are all the bytes read from it exactly when no write to it
  failed or was short (what such a write leaves is never sent). The tables they keep never mix up two clients.
\<close>
theorem polled_servers_echo:
  "echoes to_upper (snd (select_server n k [])) \<and> echoes to_upper (snd (select_server2 n k [])) \<and>
   echoes (\<lambda>c. c) (snd (poll_server n k []))"
proof -
  have shift: "bnd (bnd m (\<lambda>a. pure (g a))) f = bnd m (\<lambda>a. f (g a))" for m :: "'a io" and g :: "'a \<Rightarrow> 'b" and f :: "'b \<Rightarrow> 'c io"
    by (simp add: bnd_assoc bnd_pure)
  have start: "wp (bnd (lift x) (\<lambda>a. pure (g a))) (\<lambda>_. echoed conv) (\<lambda>_. echoed conv) h"
    if "echoed conv h" for x g conv and h :: history
    using that by (auto simp: wp_simps intro: wp_lift_keeps)
  show ?thesis
    using sel.server[of "\<lambda>fd. bnd (lift (fd_set fd {})) (\<lambda>a. pure (a, fd))" k True 6587 n, OF start]
      sel2.server[of "\<lambda>fd. bnd (lift (fd_set fd {}))
        (\<lambda>a. pure \<lparr>allset = a, maxfd = fd, maxindex = -1, cfds = replicate 1024 (-1)\<rparr>)" k True 6587 n, OF start]
      poll.server[of "\<lambda>fd. pure (poll_start fd, 0)" k True 9999 n]
    by (auto simp: select_server_def select_server2_def poll_server_def shift bnd_pure wp_simps intro!: echoed_echoes)
qed

end
