(* ===== verification/Blocking_Servers.thy ===== *)
theory Blocking_Servers
  imports Wrappers
begin

text \<open>
  The programs that block in their calls: \<^verbatim>\<open>socket/\<close> (a server for one
  client, one that forks, one that starts threads, and a client),
  \<^verbatim>\<open>localSocket/\<close> and \<^verbatim>\<open>udp/\<close>. Loops without end run for a
  number of rounds. A write whose count is the \<open>-1\<close> of a failed read is
  \<open>CWriteHuge\<close>. Buffers that the code does not initialise are arguments.
\<close>

section \<open>socket/server.c: one client\<close>

definition one_round :: "kernel \<Rightarrow> int \<Rightarrow> unit \<Rightarrow> unit io" where
  "one_round k cfd u =
     bnd (sys k (CRead cfd BUFSIZ)) (\<lambda>r.
       if ret r < 0 then sys_err
       else bnd (sys k (CWrite STDOUT_FILENO (take (nat (ret r)) (dat r)))) (\<lambda>_.
            bnd (sys k (CSleep 1)) (\<lambda>_. pure ())))"

definition one_server :: "nat \<Rightarrow> kernel \<Rightarrow> unit io" where
  "one_server rounds k =
     bnd (open_listener k False 9527) (\<lambda>fd.
     bnd (Accept k fd) (\<lambda>cfd.
       if cfd = -1 then sys_err else times rounds (one_round k cfd) ()))"

section \<open>Echoing children and threads\<close>

definition write_count :: "kernel \<Rightarrow> int \<Rightarrow> resp \<Rightarrow> unit io" where
  "write_count k fd r =
     bnd (sys k (if ret r < 0 then CWriteHuge fd else CWrite fd (take (nat (ret r)) (dat r)))) (\<lambda>_. pure ())"

text \<open>The same to a connection, where the peer may have gone.\<close>

definition answer_count :: "kernel \<Rightarrow> int \<Rightarrow> resp \<Rightarrow> unit io" where
  "answer_count k fd r =
     bnd (wr k (if ret r < 0 then CWriteHuge fd else CWrite fd (take (nat (ret r)) (dat r)))) (\<lambda>_. pure ())"

text \<open>The loop of the child in \<^verbatim>\<open>socket/forkserver.c\<close>: it has no exit.\<close>

definition child_round :: "kernel \<Rightarrow> int \<Rightarrow> unit \<Rightarrow> unit io" where
  "child_round k cfd u =
     bnd (sys k (CRead cfd BUFSIZ)) (\<lambda>r.
     bnd (if ret r = 0 then bnd (sys k (CClose cfd)) (\<lambda>_. pure ()) else pure ()) (\<lambda>_.
     bnd (answer_count k cfd r) (\<lambda>_. write_count k STDOUT_FILENO r)))"

text \<open>The handler of \<^verbatim>\<open>SIGCHLD\<close>, on a bound.\<close>

fun sig_child :: "nat \<Rightarrow> kernel \<Rightarrow> unit io" where
  "sig_child 0 k = halt Fuel"
| "sig_child (Suc n) k = bnd (sys k CWaitpid) (\<lambda>r. if ret r \<noteq> 0 then sig_child n k else pure ())"

text \<open>
  One round of the forking server; it becomes the child, which runs for \<open>n\<close> rounds, or
  stays the parent.
\<close>

definition fork_round :: "nat \<Rightarrow> kernel \<Rightarrow> int \<Rightarrow> unit \<Rightarrow> unit io" where
  "fork_round n k fd u =
     bnd (Accept k fd) (\<lambda>cfd.
     bnd (sys k CFork) (\<lambda>r.
       if 0 < ret r
       then bnd (sys k (CClose cfd)) (\<lambda>_. bnd (sys k CSigaction) (\<lambda>_. pure ()))
       else if ret r = 0
       then bnd (sys k (CClose fd)) (\<lambda>_. bnd (times n (child_round k cfd) ()) (\<lambda>_. halt Fuel))
       else pure ()))"

definition fork_server :: "nat \<Rightarrow> nat \<Rightarrow> kernel \<Rightarrow> unit io" where
  "fork_server rounds n k =
     bnd (open_listener k False 8888) (\<lambda>fd. times rounds (fork_round n k fd) ())"

text \<open>
  \<^verbatim>\<open>socket/pthreadserver.c\<close>: \<^verbatim>\<open>main\<close> stores each connection in one
  variable and starts a thread with the variable's address; the thread reads the variable
  when it first runs and then serves what it found there. The steps of main and of the threads
  interleave: a schedule lists whose turn it is. The variable stays in one place of main's
  frame from round to round. A step of a thread that cannot run is \<open>Blocked\<close>.
\<close>

datatype pt_turn = MainTurn | StartTurn nat | WorkTurn nat

record pt_state =
  lis_fd :: int
  cfd_var :: int
  pt_threads :: "int option list"

definition main_turn :: "kernel \<Rightarrow> pt_state \<Rightarrow> pt_state io" where
  "main_turn k s =
     bnd (Accept k (lis_fd s)) (\<lambda>c. pure (s\<lparr>cfd_var := c, pt_threads := pt_threads s @ [None]\<rparr>))"

definition start_turn :: "nat \<Rightarrow> pt_state \<Rightarrow> pt_state io" where
  "start_turn i s =
     (if i < length (pt_threads s) \<and> pt_threads s ! i = None
      then pure (s\<lparr>pt_threads := (pt_threads s)[i := Some (cfd_var s)]\<rparr>) else halt Blocked)"

definition thread_round :: "kernel \<Rightarrow> int \<Rightarrow> unit io" where
  "thread_round k cfd =
     bnd (sys k (CRead cfd BUFSIZ)) (\<lambda>r.
     bnd (if ret r = 0 then bnd (sys k (CClose cfd)) (\<lambda>_. pure ()) else pure ()) (\<lambda>_.
     bnd (answer_count k cfd r) (\<lambda>_. write_count k STDOUT_FILENO r)))"

definition pt_step :: "kernel \<Rightarrow> pt_turn \<Rightarrow> pt_state \<Rightarrow> pt_state io" where
  "pt_step k t s =
     (case t of
        MainTurn \<Rightarrow> main_turn k s
      | StartTurn i \<Rightarrow> start_turn i s
      | WorkTurn i \<Rightarrow>
          if i < length (pt_threads s)
          then (case pt_threads s ! i of
                  None \<Rightarrow> halt Blocked
                | Some c \<Rightarrow> bnd (thread_round k c) (\<lambda>_. pure s))
          else halt Blocked)"

definition pthread_server :: "kernel \<Rightarrow> pt_turn list \<Rightarrow> pt_state io" where
  "pthread_server k sched =
     bnd (open_listener k True 6666) (\<lambda>fd.
       for_io sched (pt_step k) \<lparr>lis_fd = fd, cfd_var = 0, pt_threads = []\<rparr>)"

section \<open>socket/client.c\<close>

definition client_round :: "kernel \<Rightarrow> int \<Rightarrow> bytes \<Rightarrow> nat \<Rightarrow> unit \<Rightarrow> unit io" where
  "client_round k fd buf i u =
     bnd (wr k (CWrite fd ''Hello'')) (\<lambda>r.
       if ret r < 0 then halt (Exit 0)
       else bnd (sys k (CWrite STDOUT_FILENO (take 5 buf))) (\<lambda>_. bnd (sys k (CSleep 1)) (\<lambda>_. pure ())))"

definition socket_client :: "kernel \<Rightarrow> bytes \<Rightarrow> unit io" where
  "socket_client k buf =
     bnd (sys k (CSocket AF_INET SOCK_STREAM 0)) (\<lambda>r. let fd = ret r in
       if fd = -1 then halt (Exit 0)
       else bnd (sys k (CConnect fd 9527)) (\<lambda>r.
       if ret r \<noteq> 0 then halt (Exit 0)
       else bnd (for_io [1..<10] (client_round k fd buf) ()) (\<lambda>_.
            bnd (sys k (CClose fd)) (\<lambda>_. pure ()))))"

section \<open>localSocket\<close>

text \<open>
  The client's path is what accept stored (\<open>dat\<close>); after a failed accept the length is
  still that of the whole address, so the terminator goes to index 108 of 108.
\<close>

definition local_answer :: "kernel \<Rightarrow> int \<Rightarrow> bool io" where
  "local_answer k cfd =
     bnd (sys k (CRead cfd BUFSIZ)) (\<lambda>r.
       if 0 < ret r
       then let b = map to_upper (take (nat (ret r)) (dat r)) in
            bnd (wr k (CWrite cfd b)) (\<lambda>_. bnd (sys k (CWrite STDOUT_FILENO b)) (\<lambda>_. pure True))
       else pure False)"

fun local_echo :: "nat \<Rightarrow> kernel \<Rightarrow> int \<Rightarrow> unit io" where
  "local_echo 0 k cfd = halt Fuel"
| "local_echo (Suc n) k cfd = bnd (local_answer k cfd) (\<lambda>more. if more then local_echo n k cfd else pure ())"

definition local_round :: "nat \<Rightarrow> kernel \<Rightarrow> int \<Rightarrow> unit \<Rightarrow> unit io" where
  "local_round n k fd u =
     bnd (sys k (CAccept fd)) (\<lambda>r.
       let len = (if ret r = -1 then 108 else length (dat r)) in
       if 108 \<le> len then halt (Undef OutOfBounds) else local_echo n k (ret r))"

definition local_server :: "nat \<Rightarrow> nat \<Rightarrow> kernel \<Rightarrow> unit io" where
  "local_server rounds n k =
     bnd (sys k (CSocket AF_UNIX SOCK_STREAM 0)) (\<lambda>r. let fd = ret r in
     bnd (sys k (CUnlink ''server.socket'')) (\<lambda>_.
     bnd (sys k (CBind fd 0)) (\<lambda>_.
     bnd (sys k (CListen fd 20)) (\<lambda>_. times rounds (local_round n k fd) ()))))"

text \<open>
  The two clients read lines into a buffer; at the end of input \<^verbatim>\<open>fgets\<close>
  returns a null pointer (here 0) and leaves the buffer as it is.
\<close>

definition get_input :: "kernel \<Rightarrow> bytes \<Rightarrow> bytes io" where
  "get_input k buf =
     bnd (sys k (CFgets BUFSIZ)) (\<lambda>r.
       let buf = (if ret r = 0 then buf else dat r @ NUL # drop (length (dat r) + 1) buf) in
       if terminated buf then pure buf else halt (Undef NoTerminator))"

definition local_client_send :: "kernel \<Rightarrow> int \<Rightarrow> bytes \<Rightarrow> nat io" where
  "local_client_send k fd buf =
     bnd (get_input k buf) (\<lambda>buf. let sz = length (c_str buf) in
     bnd (wr k (CWrite fd (c_str buf))) (\<lambda>r. if ret r < 0 then halt (Exit 0) else pure sz))"

definition local_client_receive :: "kernel \<Rightarrow> int \<Rightarrow> nat \<Rightarrow> bytes io" where
  "local_client_receive k fd sz =
     bnd (sys k (CRead fd BUFSIZ)) (\<lambda>r.
       let n = nat (ret r); buf = take n (dat r) @ replicate (BUFSIZ - n) NUL in
       bnd (sys k (CWrite STDOUT_FILENO (take sz buf))) (\<lambda>_. pure buf))"

definition local_client_round :: "kernel \<Rightarrow> int \<Rightarrow> bytes \<Rightarrow> bytes io" where
  "local_client_round k fd buf = bnd (local_client_send k fd buf) (local_client_receive k fd)"

definition local_client :: "nat \<Rightarrow> kernel \<Rightarrow> bytes \<Rightarrow> bytes io" where
  "local_client rounds k buf =
     bnd (sys k (CSocket AF_UNIX SOCK_STREAM 0)) (\<lambda>r. let fd = ret r in
     bnd (sys k (CUnlink ''cli.socket'')) (\<lambda>_.
     bnd (sys k (CBind fd 0)) (\<lambda>_.
     bnd (sys k (CConnect fd 0)) (\<lambda>r.
       if ret r \<noteq> 0 then halt (Exit 0) else times rounds (local_client_round k fd) buf))))"

section \<open>udp\<close>

definition udp_round :: "kernel \<Rightarrow> int \<Rightarrow> unit \<Rightarrow> unit io" where
  "udp_round k fd u =
     bnd (sys k (CRecvFrom fd BUFSIZ)) (\<lambda>r.
       if ret r < 0 then halt (Exit 0)
       else let b = take (nat (ret r)) (dat r) in
            bnd (sys k (CWrite STDOUT_FILENO b)) (\<lambda>_.
            bnd (sys k (CSendTo fd (map to_upper b))) (\<lambda>_. pure ())))"

definition udp_server :: "nat \<Rightarrow> kernel \<Rightarrow> unit io" where
  "udp_server rounds k =
     bnd (sys k (CSocket AF_INET SOCK_DGRAM 0)) (\<lambda>r. let fd = ret r in
     bnd (sys k (CBind fd 9527)) (\<lambda>_. times rounds (udp_round k fd) ()))"

definition udp_client_send :: "kernel \<Rightarrow> int \<Rightarrow> bytes \<Rightarrow> bytes io" where
  "udp_client_send k fd buf =
     bnd (get_input k buf) (\<lambda>buf. bnd (sys k (CSendTo fd (c_str buf))) (\<lambda>_. pure buf))"

definition udp_client_receive :: "kernel \<Rightarrow> int \<Rightarrow> bytes \<Rightarrow> bytes io" where
  "udp_client_receive k fd buf =
     bnd (sys k (CRecvFrom fd BUFSIZ)) (\<lambda>r.
       let n = nat (ret r); buf = take n (dat r) @ drop n buf in
       bnd (write_count k STDOUT_FILENO r) (\<lambda>_. pure buf))"

definition udp_client_round :: "kernel \<Rightarrow> int \<Rightarrow> bytes \<Rightarrow> bytes io" where
  "udp_client_round k fd buf = bnd (udp_client_send k fd buf) (udp_client_receive k fd)"

definition udp_client :: "nat \<Rightarrow> kernel \<Rightarrow> bytes \<Rightarrow> bytes io" where
  "udp_client rounds k buf =
     bnd (sys k (CSocket AF_INET SOCK_DGRAM 0)) (\<lambda>r. let fd = ret r in
       if fd = -1 then halt (Exit 0) else times rounds (udp_client_round k fd) buf)"

end
