(* ===== verification/Blocking_Claims.thy ===== *)
theory Blocking_Claims
  imports Blocking_Servers
begin

text \<open>
  The properties of the blocking programs: what the servers of \<^verbatim>\<open>socket/\<close>,
  \<^verbatim>\<open>localSocket/\<close> and \<^verbatim>\<open>udp/\<close> print and answer, and what
  the forked child and the threads do to their connections.
\<close>

section \<open>The server for one client\<close>

definition only_prints :: "history \<Rightarrow> bool" where
  "only_prints h \<longleftrightarrow> printed h = read_bytes h \<and>
     (\<forall>c r. (c, r) \<in> set h \<longrightarrow> (case c of CWrite fd b \<Rightarrow> fd = STDOUT_FILENO | CClose fd \<Rightarrow> False | _ \<Rightarrow> True))"

text \<open>
  The server of socket/server.c never answers: after any number of rounds it has printed
  exactly the bytes it has read, has written nothing to the connection (the upper-case
  conversion goes nowhere) and has closed no descriptor.
\<close>
theorem one_server_only_prints:
  "wp (one_server n k) (\<lambda>_. only_prints) any_stop []"
proof -
  have opens: "opening_call c \<Longrightarrow> only_prints h \<Longrightarrow> only_prints ((c, r) # h)" for c r h
    by (auto simp: only_prints_def opening_call_def split: call.splits)
  have accept: "wp (Accept k fd) (\<lambda>_. only_prints) any_stop h" if "only_prints h" for fd h
    using that by (auto simp: only_prints_def Accept_def wp_simps)
  have round: "wp (one_round k cfd u) (\<lambda>_. only_prints) any_stop h" if "only_prints h" for cfd u h
    using that by (auto simp: only_prints_def one_round_def wp_simps)
  have rounds: "wp (times n (one_round k cfd) ()) (\<lambda>_. only_prints) any_stop h" if "only_prints h" for cfd h
    by (rule wp_times[OF round that])
  have "only_prints []" by (simp add: only_prints_def)
  from wp_open_listener[where I = only_prints, OF this opens]
  show ?thesis
    unfolding one_server_def wp_bnd
    by (rule wp_mono) (auto intro!: wp_mono[OF accept] simp: wp_simps rounds)
qed

section \<open>Children and threads\<close>

definition closed_in :: "int \<Rightarrow> history \<Rightarrow> bool" where
  "closed_in fd h \<longleftrightarrow> (\<exists>r. (CClose fd, r) \<in> set h)"

text \<open>
  A peer that has closed: messages give 0, and -1 once the descriptor is closed here too. A write to a closed
  descriptor fails, but not because of the peer (it is \<^verbatim>\<open>EBADF\<close>).
\<close>

definition peer_gone :: "kernel \<Rightarrow> int \<Rightarrow> bool" where
  "peer_gone k fd \<longleftrightarrow>
     (\<forall>h n. ret (k h (CRead fd n)) = (if closed_in fd h then -1 else 0)) \<and>
     (\<forall>h b. closed_in fd h \<longrightarrow> err (k h (CWrite fd b)) \<noteq> EPIPE \<and> err (k h (CWriteHuge fd)) \<noteq> EPIPE)"

definition huge_writes :: "int \<Rightarrow> history \<Rightarrow> nat" where
  "huge_writes fd h = length (filter (\<lambda>(c, r). c = CWriteHuge fd) h)"

lemma child_round_closed:
  assumes "peer_gone k fd" and "closed_in fd h"
  shows "wp (child_round k fd u) (\<lambda>_ h'. closed_in fd h' \<and> huge_writes fd h' = huge_writes fd h + (if fd = 1 then 2 else 1))
    (\<lambda>_ _. False) h"
  using assms by (auto simp: child_round_def write_count_def answer_count_def peer_gone_def closed_in_def huge_writes_def wp_simps)

text \<open>
  When its client closes, the child of socket/forkserver.c closes the connection and goes
  on using it: the next round messages from the closed descriptor, fails, and passes the count
  -1, as an unsigned size, to write; after n + 1 rounds it has done so n times, and it never
  leaves its loop.
\<close>
theorem child_writes_after_close:
  assumes "peer_gone k cfd" and "\<not> closed_in cfd h" and "cfd \<noteq> 1" and "huge_writes cfd h = 0"
  shows "\<exists>h'. times (Suc n) (child_round k cfd) () h = (Inr (), h') \<and> closed_in cfd h' \<and> huge_writes cfd h' = n"
proof -
  have later: "wp (times m (child_round k cfd) ()) (\<lambda>_ h'. closed_in cfd h' \<and> huge_writes cfd h' = huge_writes cfd h + m)
      (\<lambda>_ _. False) h" if "closed_in cfd h" for m h
    using that
  proof (induction m arbitrary: h)
    case (Suc m)
    show ?case
      unfolding times.simps wp_bnd
      by (rule wp_mono[OF child_round_closed[OF assms(1) Suc.prems]])
        (use assms(3) in \<open>auto elim: wp_mono[OF Suc.IH]\<close>)
  qed (simp add: wp_simps)
  have "wp (child_round k cfd ()) (\<lambda>_ h'. closed_in cfd h' \<and> huge_writes cfd h' = 0) (\<lambda>_ _. False) h"
    using assms by (auto simp: child_round_def write_count_def answer_count_def peer_gone_def closed_in_def huge_writes_def wp_simps)
  then have "wp (times (Suc n) (child_round k cfd) ()) (\<lambda>_ h'. closed_in cfd h' \<and> huge_writes cfd h' = n) (\<lambda>_ _. False) h"
    unfolding times.simps wp_bnd by (rule wp_mono) (auto elim: wp_mono[OF later])
  then show ?thesis
    by (auto simp: wp_def split: prod.splits sum.splits)
qed

definition gone_kernel :: "int \<Rightarrow> kernel" where
  "gone_kernel fd h c =
     mk_ret (case c of CRead d n \<Rightarrow> if d = fd \<and> \<not> list_ex (\<lambda>(c, r). c = CClose fd) h then 0 else -1 | _ \<Rightarrow> 0)"

lemma gone_kernel_ok: "peer_gone (gone_kernel fd) fd"
  by (auto simp: peer_gone_def gone_kernel_def closed_in_def list_ex_iff)

theorem child_writes_after_close_witness:
  "\<exists>h'. times 3 (child_round (gone_kernel 4) 4) () [] = (Inr (), h') \<and> closed_in 4 h' \<and> huge_writes 4 h' = 2"
  using child_writes_after_close[of "gone_kernel 4" 4 "[]" 2] gone_kernel_ok
  by (simp add: closed_in_def huge_writes_def numeral_3_eq_3 del: times.simps)

text \<open>The history after the first \<open>m\<close> calls of waitpid.\<close>

fun waits :: "nat \<Rightarrow> kernel \<Rightarrow> history \<Rightarrow> history" where
  "waits 0 k h = h"
| "waits (Suc m) k h = waits m k ((CWaitpid, k h CWaitpid) # h)"

text \<open>
  C34. The handler of SIGCHLD in socket/forkserver.c returns exactly when one of its calls of
  waitpid answers 0; the -1 that waitpid gives when no child is left keeps it in its loop.
\<close>
theorem sig_child_returns_iff:
  "(\<exists>n h'. sig_child n k h = (Inr (), h')) \<longleftrightarrow> (\<exists>m. ret (k (waits m k h) CWaitpid) = 0)"
proof
  have "sig_child n k h = (Inr (), h') \<Longrightarrow> \<exists>m. ret (k (waits m k h) CWaitpid) = 0" for n h h'
  proof (induction n arbitrary: h)
    case (Suc n)
    show ?case
    proof (cases "ret (k h CWaitpid) = 0")
      case True then show ?thesis by (intro exI[of _ 0]) simp
    next
      case False
      with Suc.prems have "sig_child n k ((CWaitpid, k h CWaitpid) # h) = (Inr (), h')"
        by (simp add: io_simps)
      from Suc.IH[OF this] obtain m where "ret (k (waits m k ((CWaitpid, k h CWaitpid) # h)) CWaitpid) = 0" ..
      then show ?thesis by (intro exI[of _ "Suc m"]) simp
    qed
  qed (simp add: io_simps)
  then show "\<exists>n h'. sig_child n k h = (Inr (), h') \<Longrightarrow> \<exists>m. ret (k (waits m k h) CWaitpid) = 0" by blast
next
  have "ret (k (waits m k h) CWaitpid) = 0 \<Longrightarrow> \<exists>n h'. sig_child n k h = (Inr (), h')" for m h
  proof (induction m arbitrary: h)
    case 0
    then show ?case by (intro exI[of _ "Suc 0"]) (simp add: io_simps)
  next
    case (Suc m)
    from Suc.IH[of "(CWaitpid, k h CWaitpid) # h"] Suc.prems
    obtain n h' where "sig_child n k ((CWaitpid, k h CWaitpid) # h) = (Inr (), h')" by auto
    then show ?case by (intro exI[of _ "Suc n"]) (auto simp: io_simps)
  qed
  then show "\<exists>m. ret (k (waits m k h) CWaitpid) = 0 \<Longrightarrow> \<exists>n h'. sig_child n k h = (Inr (), h')" by blast
qed

definition untouched :: "int \<Rightarrow> history \<Rightarrow> bool" where
  "untouched a h \<longleftrightarrow> (\<forall>c r. (c, r) \<in> set h \<longrightarrow> (case c of CRead fd n \<Rightarrow> fd \<noteq> a | CClose fd \<Rightarrow> fd \<noteq> a | _ \<Rightarrow> True))"

lemma untouched_simps [simp]:
  "untouched a []"
  "untouched a ((c, r) # h) \<longleftrightarrow>
     (case c of CRead fd n \<Rightarrow> fd \<noteq> a | CClose fd \<Rightarrow> fd \<noteq> a | _ \<Rightarrow> True) \<and> untouched a h"
  by (auto simp: untouched_def)

text \<open>The numbers accept has given so far.\<close>

fun accepted :: "history \<Rightarrow> int set" where
  "accepted [] = {}"
| "accepted ((c, r) # h) = (case c of CAccept l \<Rightarrow> if 0 \<le> ret r then insert (ret r) (accepted h) else accepted h | _ \<Rightarrow> accepted h)"

lemma accepted_conns: "open_conns h \<subseteq> accepted h"
  by (induction h) (auto split: call.splits if_splits)

text \<open>The connection \<open>a\<close> is open and no thread serves it; and when main's variable has moved on, nothing that could still serve it remains.\<close>

definition unserved :: "int \<Rightarrow> pt_state \<Rightarrow> history \<Rightarrow> bool" where
  "unserved a s h \<longleftrightarrow> a \<in> open_conns h \<and> untouched a h \<and> Some a \<notin> set (pt_threads s)"

definition lost :: "int \<Rightarrow> pt_state \<Rightarrow> history \<Rightarrow> bool" where
  "lost a s h \<longleftrightarrow> unserved a s h \<and> cfd_var s \<noteq> a"

text \<open>What holds at any time: threads and main's variable have numbers that accept gave, and no other number has been touched.\<close>

definition known_conns :: "pt_state \<Rightarrow> history \<Rightarrow> bool" where
  "known_conns s h \<longleftrightarrow> (pt_threads s \<noteq> [] \<longrightarrow> cfd_var s \<in> accepted h) \<and>
     (\<forall>c. Some c \<in> set (pt_threads s) \<longrightarrow> c \<in> accepted h) \<and> (\<forall>a. a \<notin> accepted h \<longrightarrow> untouched a h)"

lemma thread_round_touches_own:
  "c \<noteq> a \<Longrightarrow> wp (thread_round k c)
     (\<lambda>_ h'. (a \<in> open_conns h' \<longleftrightarrow> a \<in> open_conns h) \<and> (untouched a h' \<longleftrightarrow> untouched a h) \<and> accepted h' = accepted h) any_stop h"
  by (auto simp: thread_round_def write_count_def answer_count_def wp_simps)

lemma worker_keeps_unserved:
  assumes "unserved a s h"
  shows "wp (pt_step k (WorkTurn i) s) (\<lambda>s'. if s' = s then unserved a s else (\<lambda>_. False)) any_stop h"
proof -
  have "pt_threads s ! i \<noteq> Some a" if "i < length (pt_threads s)"
    using assms that by (metis unserved_def nth_mem)
  with assms show ?thesis
    by (auto simp: pt_step_def wp_simps unserved_def split: option.split intro!: wp_mono[OF thread_round_touches_own])
qed

lemma workers_keep_unserved:
  assumes "unserved a s h" and "\<forall>t \<in> set ts. \<exists>i. t = WorkTurn i"
  shows "wp (for_io ts (pt_step k) s) (unserved a) any_stop h"
proof (rule wp_for_io[where I = "unserved a"])
  fix t s h assume t: "t \<in> set ts" and u: "unserved a s h"
  from t assms(2) obtain i where "t = WorkTurn i" by blast
  then show "wp (pt_step k t s) (unserved a) any_stop h"
    by (auto split: if_splits intro: wp_mono[OF worker_keeps_unserved[OF u]])
qed (rule assms(1))

lemma next_accepted:
  assumes "accept_fresh k" and "unserved a s h"
  shows "wp (pt_step k MainTurn s) (lost a) any_stop h"
proof -
  have "a \<noteq> ret (k h (CAccept l))" if "0 \<le> ret (k h (CAccept l))" for l
    using assms accept_freshD(1)[OF assms(1) that] by (auto simp: unserved_def)
  with assms(2) show ?thesis
    by (auto simp: pt_step_def main_turn_def Accept_def wp_simps lost_def unserved_def not_less)
qed

lemma lost_step:
  assumes "accept_fresh k" and "lost a s h"
  shows "wp (pt_step k t s) (lost a) any_stop h"
proof (cases t)
  case MainTurn
  with assms show ?thesis by (auto simp: lost_def intro: next_accepted)
next
  case (StartTurn i)
  with assms show ?thesis
    by (auto simp: lost_def unserved_def pt_step_def start_turn_def wp_simps dest!: set_update_subset_insert[THEN subsetD])
next
  case (WorkTurn i)
  with assms(2) show ?thesis
    by (auto simp: lost_def split: if_splits intro: wp_mono[OF worker_keeps_unserved])
qed

lemma known_conns_step:
  assumes "known_conns s h"
  shows "wp (pt_step k t s) known_conns any_stop h"
proof (cases t)
  case MainTurn
  with assms show ?thesis
    by (auto simp: known_conns_def pt_step_def main_turn_def Accept_def wp_simps)
next
  case (StartTurn i)
  with assms show ?thesis
    by (auto simp: known_conns_def pt_step_def start_turn_def wp_simps dest!: set_update_subset_insert[THEN subsetD])
next
  case (WorkTurn i)
  have "wp (thread_round k c) (\<lambda>_. known_conns s) any_stop h" if "pt_threads s ! i = Some c" "i < length (pt_threads s)" for c
  proof -
    have "c \<in> accepted h" using assms that by (metis known_conns_def nth_mem)
    with assms show ?thesis
      by (auto simp: known_conns_def thread_round_def write_count_def answer_count_def wp_simps)
  qed
  with WorkTurn show ?thesis by (auto simp: pt_step_def wp_simps split: option.split)
qed

lemma known_conns_run: "wp (pthread_server k sched) known_conns any_stop []"
proof -
  have "wp (open_listener k True 6666) (\<lambda>fd h. fd \<noteq> -1 \<and> (\<forall>a. untouched a h)) any_stop []"
    by (rule wp_open_listener) (auto simp: opening_call_def split: call.splits)
  then show ?thesis
    unfolding pthread_server_def wp_bnd
    by (rule wp_mono) (auto intro!: wp_for_io[where I = known_conns] known_conns_step simp: known_conns_def)
qed

lemma pthread_server_append: "pthread_server k (xs @ ys) = bnd (pthread_server k xs) (for_io ys (pt_step k))"
  by (simp add: pthread_server_def bnd_assoc for_io_append)

text \<open>
  C30. When the threaded server accepts a connection on a number it has not used before, and then accepts another
  one before any thread has read main's variable, the earlier of the two is lost: whatever
  came before and however the threads and main go on, it stays open and
  is never read and never closed (the thread started for it serves a later connection).
\<close>
theorem pthread_server_loses_connection:
  assumes "accept_fresh k"
    and "pthread_server k before [] = (Inr s0, h0)" and "main_turn k s0 h0 = (Inr s1, h1)"
    and "cfd_var s1 \<notin> accepted h0" and "\<forall>t \<in> set between. \<exists>i. t = WorkTurn i"
    and "pthread_server k (before @ MainTurn # between @ MainTurn # later) [] = (Inr s, h)"
  shows "cfd_var s1 \<in> open_conns h \<and> untouched (cfd_var s1) h"
proof -
  let ?a = "cfd_var s1"
  have "known_conns s0 h0" by (rule wp_InrD[OF known_conns_run assms(2)])
  with assms(4) have "untouched ?a h0" "Some ?a \<notin> set (pt_threads s0)" by (auto simp: known_conns_def)
  moreover have "wp (main_turn k s0) (\<lambda>s1 h1. untouched (cfd_var s1) h0 \<longrightarrow> Some (cfd_var s1) \<notin> set (pt_threads s0) \<longrightarrow>
      unserved (cfd_var s1) s1 h1) any_stop h0"
    by (auto simp: main_turn_def Accept_def wp_simps unserved_def)
  ultimately have first: "unserved ?a s1 h1" using assms(3) by (simp add: wp_def)
  have go_on: "wp (for_io later (pt_step k) s) (lost ?a) any_stop h" if "lost ?a s h" for s h
    by (rule wp_for_io[where I = "lost ?a"]) (auto intro: lost_step[OF assms(1)] that)
  have "wp (bnd (for_io between (pt_step k) s1) (for_io (MainTurn # later) (pt_step k))) (lost ?a) any_stop h1"
    unfolding wp_bnd for_io.simps
    by (rule wp_mono[OF workers_keep_unserved[OF first assms(5)]]) (auto intro!: wp_mono[OF next_accepted[OF assms(1)]] go_on)
  moreover have "bnd (for_io between (pt_step k) s1) (for_io (MainTurn # later) (pt_step k)) h1 = (Inr s, h)"
    using assms(6) assms(2,3) by (simp add: pthread_server_append for_io_append io_simps pt_step_def)
  ultimately show ?thesis by (auto simp: lost_def unserved_def dest: wp_InrD)
qed

definition pt_kernel :: kernel where
  "pt_kernel h c =
     (case c of
        CAccept l \<Rightarrow> if int (length h) \<in> open_conns h \<or> int (length h) = l then mk_ret (-1) else mk_ret (int (length h))
      | _ \<Rightarrow> mk_ret 0)"

lemma pt_kernel_fresh: "accept_fresh pt_kernel"
  by (simp add: accept_fresh_def pt_kernel_def)

text \<open>
  A first connection gets its thread, which serves it; of the next two the earlier one, number 5, is lost: both their threads serve number 10.
\<close>
theorem pthread_server_loses_connection_witness:
  "\<exists>s h. pthread_server pt_kernel ([MainTurn, StartTurn 0] @ MainTurn # [WorkTurn 0] @ MainTurn # [StartTurn 1, StartTurn 2, WorkTurn 1]) [] = (Inr s, h) \<and>
     5 \<in> open_conns h \<and> untouched 5 h \<and> pt_threads s = [Some 4, Some 10, Some 10]"
proof -
  let ?pre = "[MainTurn, StartTurn 0]" and ?mid = "[WorkTurn 0]" and ?post = "[StartTurn 1, StartTurn 2, WorkTurn 1]"
  let ?s0 = "\<lparr>lis_fd = 0, cfd_var = 4, pt_threads = [Some 4]\<rparr>"
  note run = pthread_server_def open_listener_def wrapper_defs io_simps pt_kernel_def pt_step_def main_turn_def
    start_turn_def thread_round_def write_count_def answer_count_def numeral_2_eq_2
  obtain h0 where h0: "pthread_server pt_kernel ?pre [] = (Inr ?s0, h0)" "accepted h0 = {4}" "open_conns h0 = {4}" "length h0 = 5"
    by (simp add: run)
  have main: "main_turn pt_kernel ?s0 h0 = (Inr \<lparr>lis_fd = 0, cfd_var = 5, pt_threads = [Some 4, None]\<rparr>, (CAccept 0, mk_ret 5) # h0)"
    using h0(3,4) by (simp add: run)
  obtain h where h: "pthread_server pt_kernel (?pre @ MainTurn # ?mid @ MainTurn # ?post) [] =
       (Inr \<lparr>lis_fd = 0, cfd_var = 10, pt_threads = [Some 4, Some 10, Some 10]\<rparr>, h)"
    by (simp add: run)
  from pthread_server_loses_connection[OF pt_kernel_fresh h0(1) main _ _ h] h h0(2) show ?thesis by simp
qed

section \<open>The Unix-domain server and the UDP server\<close>

text \<open>What has been received and what has been sent, oldest first.\<close>

fun messages :: "history \<Rightarrow> (int \<times> bytes) list" where
  "messages [] = []"
| "messages ((c, r) # h) =
     messages h @ (case c of CRead fd n \<Rightarrow> if 0 < ret r then [(fd, take (nat (ret r)) (dat r))] else [] | _ \<Rightarrow> [])"

fun sent :: "history \<Rightarrow> (int \<times> bytes) list" where
  "sent [] = []"
| "sent ((c, r) # h) = sent h @ (case c of CWrite fd b \<Rightarrow> [(fd, b)] | CSendTo fd b \<Rightarrow> [(fd, b)] | _ \<Rightarrow> [])"

definition answers_upper :: "history \<Rightarrow> bool" where
  "answers_upper h \<longleftrightarrow>
     sent h = concat (map (\<lambda>(fd, b). [(fd, map to_upper b), (STDOUT_FILENO, map to_upper b)]) (messages h)) \<and>
     (\<forall>fd r. (CClose fd, r) \<notin> set h)"

text \<open>The last call is an accept that failed or stored 108 or more bytes of a path.\<close>

definition overlong_accept :: "history \<Rightarrow> bool" where
  "overlong_accept h =
     (case h of (CAccept fd, r) # _ \<Rightarrow> ret r = -1 \<or> 108 \<le> length (dat r) | _ \<Rightarrow> False)"

text \<open>The last call is an answer to a peer that has gone: the line for the terminal is missing.\<close>

definition peer_lost :: "history \<Rightarrow> bool" where
  "peer_lost h =
     (case h of
        (CWrite fd b, r) # _ \<Rightarrow> ret r = -1 \<and> err r = EPIPE \<and> answers_upper ((CWrite STDOUT_FILENO b, r) # h)
      | _ \<Rightarrow> False)"

definition local_stop :: "stop \<Rightarrow> history \<Rightarrow> bool" where
  "local_stop e h \<longleftrightarrow>
     answers_upper h \<and> (e = Fuel \<or> e = Undef OutOfBounds \<and> overlong_accept h) \<or> e = Killed \<and> peer_lost h"

lemma local_answer_answers:
  assumes "answers_upper h"
  shows "wp (local_answer k cfd) (\<lambda>_. answers_upper) local_stop h"
proof -
  have "answers_upper ((CWrite STDOUT_FILENO (map to_upper b), r2) # (CWrite cfd (map to_upper b), r1) # (CRead cfd BUFSIZ, r) # h)"
    if "0 < ret r" and "b = take (nat (ret r)) (dat r)" for b r r1 r2
    using assms that by (simp add: answers_upper_def)
  moreover have "answers_upper ((CRead cfd BUFSIZ, r) # h)" if "\<not> 0 < ret r" for r
    using assms that by (simp add: answers_upper_def)
  ultimately show ?thesis by (simp add: local_answer_def wp_simps Let_def local_stop_def peer_lost_def)
qed

lemma local_echo_answers:
  "answers_upper h \<Longrightarrow> wp (local_echo n k cfd) (\<lambda>_. answers_upper) local_stop h"
proof (induction n arbitrary: h)
  case (Suc n)
  show ?case
    unfolding local_echo.simps wp_bnd
    by (rule wp_mono[OF local_answer_answers[OF Suc.prems]]) (simp_all add: wp_simps Suc.IH)
qed (simp add: wp_simps local_stop_def)

text \<open>
  The server of localSocket answers every message with its upper-case copy on the same
  connection, prints it, sends nothing else, and never closes a connection; it stops only when
  an accept fails or stores a path that leaves no room for its terminator, and then it writes
  outside sun_path, or when the client it answers has gone, and then SIGPIPE kills it.
\<close>
theorem local_server_answers_upper:
  "wp (local_server rounds n k) (\<lambda>_. answers_upper) local_stop []"
proof -
  have accepted: "answers_upper ((CAccept fd, r) # h)" if "answers_upper h" for fd r h
    using that by (simp add: answers_upper_def)
  have "wp (local_round n k fd u) (\<lambda>_. answers_upper) local_stop h" if "answers_upper h" for fd u h
    using accepted[OF that]
    by (auto simp: local_round_def wp_simps Let_def local_stop_def overlong_accept_def intro!: local_echo_answers)
  then have "wp (times rounds (local_round n k fd) ()) (\<lambda>_. answers_upper) local_stop h" if "answers_upper h" for fd h
    using that by (rule wp_times)
  then show ?thesis
    by (simp add: local_server_def wp_simps Let_def answers_upper_def)
qed

fun datagrams :: "history \<Rightarrow> (int \<times> bytes) list" where
  "datagrams [] = []"
| "datagrams ((c, r) # h) =
     datagrams h @ (case c of CRecvFrom fd n \<Rightarrow> if 0 \<le> ret r then [(fd, take (nat (ret r)) (dat r))] else [] | _ \<Rightarrow> [])"

definition answers_datagrams :: "history \<Rightarrow> bool" where
  "answers_datagrams h \<longleftrightarrow>
     sent h = concat (map (\<lambda>(fd, b). [(STDOUT_FILENO, b), (fd, map to_upper b)]) (datagrams h))"

text \<open>
  The UDP server prints every datagram and answers it with its upper-case copy, in order,
  the empty ones too, and sends nothing else; it stops only when a receive fails, with
  status 0.
\<close>
theorem udp_server_answers_upper:
  "wp (udp_server rounds k) (\<lambda>_. answers_datagrams) (\<lambda>e h. e = Exit 0 \<and> answers_datagrams h) []"
proof -
  have "wp (udp_round k fd u) (\<lambda>_. answers_datagrams) (\<lambda>e h. e = Exit 0 \<and> answers_datagrams h) h"
    if "answers_datagrams h" for fd u h
    using that by (auto simp: udp_round_def wp_simps Let_def answers_datagrams_def)
  then have "wp (times rounds (udp_round k fd) ()) (\<lambda>_. answers_datagrams)
      (\<lambda>e h. e = Exit 0 \<and> answers_datagrams h) h" if "answers_datagrams h" for fd h
    using that by (rule wp_times)
  then show ?thesis
    by (simp add: udp_server_def wp_simps Let_def answers_datagrams_def)
qed

end
