(* ===== verification/Line_Service.thy ===== *)
theory Line_Service
  imports Blocking_Claims
begin

text \<open>
  A user types lines, a client sends each to a server and prints the answer: what the programs of
  \<^verbatim>\<open>udp/\<close> and \<^verbatim>\<open>localSocket/\<close> have in common. Both sides make
  their calls on one history, in which the two ends of the connection have different numbers; the client's round
  is cut where it waits for the answer, and the server's runs there. The locale \<open>request_reply\<close> is the
  contract of the three parts, \<open>line_service\<close> that of the whole exchange, which follows from it.
\<close>

section \<open>The user\<close>

fun lines_read :: "history \<Rightarrow> nat" where
  "lines_read [] = 0"
| "lines_read ((c, r) # h) = lines_read h + (case c of CFgets n \<Rightarrow> 1 | _ \<Rightarrow> 0)"

text \<open>The user types these lines, none empty and none too long for the buffer.\<close>

definition types :: "kernel \<Rightarrow> bytes list \<Rightarrow> bool" where
  "types k ls \<longleftrightarrow>
     (\<forall>h. lines_read h < length ls \<longrightarrow> ret (k h (CFgets BUFSIZ)) = 1 \<and> dat (k h (CFgets BUFSIZ)) = ls ! lines_read h) \<and>
     (\<forall>l \<in> set ls. l \<noteq> [] \<and> NUL \<notin> set l \<and> length l < BUFSIZ)"

lemma wp_get_input:
  assumes "types k ls" and "lines_read h < length ls"
    and "\<And>b r. c_str b = ls ! lines_read h \<Longrightarrow> Q b ((CFgets BUFSIZ, r) # h)"
  shows "wp (get_input k buf) Q E h"
proof -
  have "NUL \<notin> set (ls ! lines_read h)" using assms(1,2) by (simp add: types_def)
  then have "c_str (ls ! lines_read h @ NUL # t) = ls ! lines_read h" for t by (rule c_str_terminated)
  then show ?thesis using assms by (simp add: get_input_def wp_simps types_def Let_def)
qed

lemma types_fit:
  assumes "types k ls" and "i < length ls"
  shows "ls ! i \<noteq> []" "length (ls ! i) \<le> BUFSIZ"
  using assms by (auto simp: types_def less_imp_le)

section \<open>The contracts\<close>

locale line_service =
  fixes exchange :: "kernel \<Rightarrow> bytes \<Rightarrow> bytes io"
    and good :: "kernel \<Rightarrow> bool"
    and idle :: "history \<Rightarrow> bool"
    and out :: "bytes \<Rightarrow> bytes"
  assumes idle_start: "idle []"
    and exchange_law: "good k \<Longrightarrow> types k ls \<Longrightarrow> idle h \<Longrightarrow> lines_read h < length ls \<Longrightarrow>
      wp (exchange k buf)
        (\<lambda>_ h'. idle h' \<and> lines_read h' = Suc (lines_read h) \<and> printed h' = printed h @ out (ls ! lines_read h))
        (\<lambda>_ _. False) h"
begin

lemma conversation_from:
  assumes "good k" and "types k ls" and "idle h" and "lines_read h + n \<le> length ls"
  shows "wp (times n (exchange k) buf)
    (\<lambda>_ h'. idle h' \<and> printed h' = printed h @ concat (map out (take n (drop (lines_read h) ls)))) (\<lambda>_ _. False) h"
  using assms(3,4)
proof (induction n arbitrary: buf h)
  case (Suc n)
  then have "drop (lines_read h) ls = ls ! lines_read h # drop (Suc (lines_read h)) ls"
    by (simp add: Cons_nth_drop_Suc)
  then show ?case
    unfolding times.simps wp_bnd
    by (intro wp_mono[OF exchange_law[OF assms(1,2) Suc.prems(1)]])
      (use Suc.prems(2) in \<open>auto elim!: wp_mono[OF Suc.IH]\<close>)
qed (simp add: wp_simps)

lemma conversation:
  assumes "good k" and "types k ls" and "n \<le> length ls"
  shows "\<exists>buf' h. times n (exchange k) buf [] = (Inr buf', h) \<and> printed h = concat (map out (take n ls)) \<and> idle h"
  using conversation_from[OF assms(1,2) idle_start, of n buf] assms(3)
  by (auto simp: wp_def split: prod.splits sum.splits)

end

text \<open>One exchange: the client's request, the server's round, the rest of the client's round.\<close>

definition exchange ::
  "(kernel \<Rightarrow> bytes \<Rightarrow> 'a io) \<Rightarrow> (kernel \<Rightarrow> unit io) \<Rightarrow> (kernel \<Rightarrow> 'a \<Rightarrow> bytes io) \<Rightarrow> kernel \<Rightarrow> bytes \<Rightarrow> bytes io" where
  "exchange request serve receive k buf = bnd (request k buf) (\<lambda>x. bnd (serve k) (\<lambda>_. receive k x))"

text \<open>
  The laws follow a line: it is on its way to the server (\<open>asked\<close>), its answer is on its way back
  (\<open>told\<close>), nothing is on its way (\<open>idle\<close>). What the client keeps of the line fits it.
\<close>

locale request_reply =
  fixes request :: "kernel \<Rightarrow> bytes \<Rightarrow> 'a io"
    and serve :: "kernel \<Rightarrow> unit io"
    and receive :: "kernel \<Rightarrow> 'a \<Rightarrow> bytes io"
    and good :: "kernel \<Rightarrow> bool"
    and idle :: "history \<Rightarrow> bool"
    and asked :: "bytes \<Rightarrow> history \<Rightarrow> bool"
    and told :: "bytes \<Rightarrow> history \<Rightarrow> bool"
    and fits :: "bytes \<Rightarrow> 'a \<Rightarrow> bool"
    and served :: "bytes \<Rightarrow> bytes"
    and shown :: "bytes \<Rightarrow> bytes"
  assumes start: "idle []"
    and request_law: "good k \<Longrightarrow> types k ls \<Longrightarrow> idle h \<Longrightarrow> lines_read h < length ls \<Longrightarrow>
      wp (request k buf)
        (\<lambda>x h'. asked (ls ! lines_read h) h' \<and> fits (ls ! lines_read h) x \<and>
           lines_read h' = Suc (lines_read h) \<and> printed h' = printed h) (\<lambda>_ _. False) h"
    and serve_law: "good k \<Longrightarrow> asked l h \<Longrightarrow> l \<noteq> [] \<Longrightarrow> length l \<le> BUFSIZ \<Longrightarrow>
      wp (serve k) (\<lambda>_ h'. told l h' \<and> lines_read h' = lines_read h \<and> printed h' = printed h @ served l) (\<lambda>_ _. False) h"
    and receive_law: "good k \<Longrightarrow> told l h \<Longrightarrow> fits l x \<Longrightarrow> l \<noteq> [] \<Longrightarrow> length l \<le> BUFSIZ \<Longrightarrow>
      wp (receive k x) (\<lambda>_ h'. idle h' \<and> lines_read h' = lines_read h \<and> printed h' = printed h @ shown l) (\<lambda>_ _. False) h"

sublocale request_reply \<subseteq> line_service "exchange request serve receive" good idle "\<lambda>l. served l @ shown l"
proof
  show "idle []" by (rule start)
next
  fix k ls h buf
  assume a: "good k" "types k ls" "idle h" "lines_read h < length ls"
  note fit = types_fit[OF a(2,4)]
  show "wp (exchange request serve receive k buf)
    (\<lambda>_ h'. idle h' \<and> lines_read h' = Suc (lines_read h) \<and>
       printed h' = printed h @ served (ls ! lines_read h) @ shown (ls ! lines_read h)) (\<lambda>_ _. False) h"
    unfolding exchange_def wp_bnd
    by (rule wp_mono[OF request_law[OF a]])
      (use fit in \<open>auto intro!: wp_mono[OF serve_law[OF a(1)]] wp_mono[OF receive_law[OF a(1)]] simp: wp_bnd\<close>)
qed

end
