(* ===== verification/Udp_Talk.thy ===== *)
theory Udp_Talk
  imports Line_Service
begin

text \<open>
  The client and the server of \<^verbatim>\<open>udp/\<close> together: the contract of
  \<open>Line_Service\<close> for datagrams.
\<close>

section \<open>The network\<close>

text \<open>The datagrams on their way from one end to another, oldest first.\<close>

fun inbox :: "int \<Rightarrow> int \<Rightarrow> history \<Rightarrow> bytes list" where
  "inbox a b [] = []"
| "inbox a b ((c, r) # h) =
     (case c of
        CSendTo f m \<Rightarrow> if f = a then inbox a b h @ [m] else inbox a b h
      | CRecvFrom f n \<Rightarrow> if f = b then drop 1 (inbox a b h) else inbox a b h
      | _ \<Rightarrow> inbox a b h)"

text \<open>A datagram that is on its way is received whole, as far as there is room.\<close>

definition network :: "kernel \<Rightarrow> int \<Rightarrow> int \<Rightarrow> bool" where
  "network k a b \<longleftrightarrow>
     (\<forall>h n m ms. inbox a b h = m # ms \<longrightarrow>
        ret (k h (CRecvFrom b n)) = int (min n (length m)) \<and> dat (k h (CRecvFrom b n)) = take n m)"

lemma inbox_simps [simp]:
  "inbox a b ((CFgets n, r) # h) = inbox a b h"
  "inbox a b ((CWrite fd m, r) # h) = inbox a b h"
  "inbox a b ((CSendTo f m, r) # h) = (if f = a then inbox a b h @ [m] else inbox a b h)"
  "inbox a b ((CRecvFrom f n, r) # h) = (if f = b then drop 1 (inbox a b h) else inbox a b h)"
  by simp_all

lemma networkD:
  assumes "network k a b" and "inbox a b h = [m]" and "length m \<le> n"
  shows "ret (k h (CRecvFrom b n)) = int (length m)" "dat (k h (CRecvFrom b n)) = m"
  using assms by (auto simp: network_def min_def)

section \<open>The exchange\<close>

definition on_way :: "int \<Rightarrow> int \<Rightarrow> bytes list \<Rightarrow> bytes list \<Rightarrow> history \<Rightarrow> bool" where
  "on_way cfd sfd ms ns h \<longleftrightarrow> inbox cfd sfd h = ms \<and> inbox sfd cfd h = ns"

definition udp_exchange :: "int \<Rightarrow> int \<Rightarrow> kernel \<Rightarrow> bytes \<Rightarrow> bytes io" where
  "udp_exchange cfd sfd =
     exchange (\<lambda>k. udp_client_send k cfd) (\<lambda>k. udp_round k sfd ()) (\<lambda>k. udp_client_receive k cfd)"

definition udp_net :: "int \<Rightarrow> int \<Rightarrow> kernel \<Rightarrow> bool" where
  "udp_net cfd sfd k \<longleftrightarrow> network k cfd sfd \<and> network k sfd cfd \<and> cfd \<noteq> sfd"

interpretation udp: request_reply "\<lambda>k. udp_client_send k cfd" "\<lambda>k. udp_round k sfd ()" "\<lambda>k. udp_client_receive k cfd"
  "udp_net cfd sfd" "on_way cfd sfd [] []" "\<lambda>l. on_way cfd sfd [l] []" "\<lambda>l. on_way cfd sfd [] [map to_upper l]"
  "\<lambda>l x. True" "\<lambda>l. l" "map to_upper" for cfd sfd
proof
  show "on_way cfd sfd [] [] []" by (simp add: on_way_def)
next
  fix k ls h buf
  assume "udp_net cfd sfd k" "types k ls" "on_way cfd sfd [] [] h" "lines_read h < length ls"
  then show "wp (udp_client_send k cfd buf)
      (\<lambda>x h'. on_way cfd sfd [ls ! lines_read h] [] h' \<and> True \<and> lines_read h' = Suc (lines_read h) \<and> printed h' = printed h)
      (\<lambda>_ _. False) h"
    by (auto simp: udp_client_send_def wp_simps udp_net_def on_way_def intro!: wp_get_input)
next
  fix k l h
  assume a: "udp_net cfd sfd k" "on_way cfd sfd [l] [] h" "length l \<le> BUFSIZ"
  then show "wp (udp_round k sfd ())
      (\<lambda>_ h'. on_way cfd sfd [] [map to_upper l] h' \<and> lines_read h' = lines_read h \<and> printed h' = printed h @ l)
      (\<lambda>_ _. False) h"
    using networkD[of k cfd sfd h l BUFSIZ] by (simp add: udp_round_def wp_simps Let_def udp_net_def on_way_def)
next
  fix k l h x
  assume a: "udp_net cfd sfd k" "on_way cfd sfd [] [map to_upper l] h" "length l \<le> BUFSIZ"
  then show "wp (udp_client_receive k cfd x)
      (\<lambda>_ h'. on_way cfd sfd [] [] h' \<and> lines_read h' = lines_read h \<and> printed h' = printed h @ map to_upper l)
      (\<lambda>_ _. False) h"
    using networkD[of k sfd cfd h "map to_upper l" BUFSIZ]
    by (simp add: udp_client_receive_def write_count_def wp_simps Let_def udp_net_def on_way_def)
qed

section \<open>A conversation\<close>

text \<open>
  C31. The UDP client and server together: on a network that loses nothing, when the user types lines that fit
  the buffer, every exchange ends, and what the two print is each line as typed (the server) followed by its
  upper-case copy (the client), in the order of typing; no datagram is left over.
\<close>
theorem udp_conversation:
  assumes "udp_net cfd sfd k" and "types k ls" and "n \<le> length ls"
  shows "\<exists>buf' h. times n (udp_exchange cfd sfd k) buf [] = (Inr buf', h) \<and>
    printed h = concat (map (\<lambda>l. l @ map to_upper l) (take n ls)) \<and> on_way cfd sfd [] [] h"
  unfolding udp_exchange_def by (rule udp.conversation[OF assms])

definition wire :: "bytes list \<Rightarrow> kernel" where
  "wire ls h c =
     (case c of
        CRecvFrom f n \<Rightarrow>
          (case inbox (7 - f) f h of [] \<Rightarrow> mk_ret (-1) | m # ms \<Rightarrow> mk_ret (int (min n (length m)))\<lparr>dat := take n m\<rparr>)
      | CFgets n \<Rightarrow> if lines_read h < length ls then mk_ret 1\<lparr>dat := ls ! lines_read h\<rparr> else mk_ret 0
      | _ \<Rightarrow> mk_ret 0)"

lemma wire_net: "udp_net 3 4 (wire ls)"
  by (auto simp: udp_net_def network_def wire_def)

lemma wire_types: "(\<forall>l \<in> set ls. l \<noteq> [] \<and> NUL \<notin> set l \<and> length l < BUFSIZ) \<Longrightarrow> types (wire ls) ls"
  by (simp add: types_def wire_def)

definition two_lines :: "bytes list" where
  "two_lines = [''hi'' @ [LF], ''you'' @ [LF]]"

theorem udp_conversation_witness:
  "\<exists>buf' h. times 2 (udp_exchange 3 4 (wire two_lines)) [] [] = (Inr buf', h) \<and>
    printed h = ''hi'' @ [LF] @ ''HI'' @ [LF] @ ''you'' @ [LF] @ ''YOU'' @ [LF]"
proof -
  have ty: "types (wire two_lines) two_lines" by (rule wire_types) (simp add: two_lines_def)
  have len: "2 \<le> length two_lines" by (simp add: two_lines_def)
  obtain buf' h where "times 2 (udp_exchange 3 4 (wire two_lines)) [] [] = (Inr buf', h)"
    "printed h = concat (map (\<lambda>l. l @ map to_upper l) (take 2 two_lines))"
    using udp_conversation[OF wire_net ty len] by blast
  moreover have "concat (map (\<lambda>l. l @ map to_upper l) (take 2 two_lines)) =
      ''hi'' @ [LF] @ ''HI'' @ [LF] @ ''you'' @ [LF] @ ''YOU'' @ [LF]"
    by code_simp
  ultimately show ?thesis by metis
qed

end
