(* ===== verification/Local_Talk.thy ===== *)
theory Local_Talk
  imports Line_Service Stream_Link
begin

text \<open>
  The client and the server of \<^verbatim>\<open>localSocket/\<close> together: the contract of
  \<open>Line_Service\<close> for a stream. The server is inside its loop on the connection.
\<close>

section \<open>The exchange\<close>

definition in_pipe :: "int \<Rightarrow> int \<Rightarrow> bytes \<Rightarrow> bytes \<Rightarrow> history \<Rightarrow> bool" where
  "in_pipe cfd sfd u v h \<longleftrightarrow> pending cfd sfd h = u \<and> pending sfd cfd h = v"

text \<open>One round of the server's inner loop; if it left the loop, it would wait for the next client.\<close>

definition local_serve :: "int \<Rightarrow> kernel \<Rightarrow> unit io" where
  "local_serve sfd k = bnd (local_answer k sfd) (\<lambda>more. if more then pure () else halt Blocked)"

definition local_exchange :: "int \<Rightarrow> int \<Rightarrow> kernel \<Rightarrow> bytes \<Rightarrow> bytes io" where
  "local_exchange cfd sfd =
     exchange (\<lambda>k. local_client_send k cfd) (local_serve sfd) (\<lambda>k. local_client_receive k cfd)"

definition local_net :: "int \<Rightarrow> int \<Rightarrow> kernel \<Rightarrow> bool" where
  "local_net cfd sfd k \<longleftrightarrow> duplex k cfd sfd \<and> duplex k sfd cfd \<and> cfd \<noteq> sfd \<and> 1 < cfd \<and> 1 < sfd"

interpretation loc: request_reply "\<lambda>k. local_client_send k cfd" "local_serve sfd" "\<lambda>k. local_client_receive k cfd"
  "local_net cfd sfd" "in_pipe cfd sfd [] []" "\<lambda>l. in_pipe cfd sfd l []" "\<lambda>l. in_pipe cfd sfd [] (map to_upper l)"
  "\<lambda>l n. n = length l" "map to_upper" "map to_upper" for cfd sfd
proof
  show "in_pipe cfd sfd [] [] []" by (simp add: in_pipe_def)
next
  fix k ls h buf
  assume "local_net cfd sfd k" "types k ls" "in_pipe cfd sfd [] [] h" "lines_read h < length ls"
  then show "wp (local_client_send k cfd buf)
      (\<lambda>x h'. in_pipe cfd sfd (ls ! lines_read h) [] h' \<and> x = length (ls ! lines_read h) \<and>
         lines_read h' = Suc (lines_read h) \<and> printed h' = printed h) (\<lambda>_ _. False) h"
    by (auto simp: local_client_send_def wp_simps local_net_def in_pipe_def duplexD(1) Let_def intro!: wp_get_input)
next
  fix k l h
  assume "local_net cfd sfd k" "in_pipe cfd sfd l [] h" "l \<noteq> []" "length l \<le> BUFSIZ"
  then show "wp (local_serve sfd k)
      (\<lambda>_ h'. in_pipe cfd sfd [] (map to_upper l) h' \<and> lines_read h' = lines_read h \<and>
         printed h' = printed h @ map to_upper l) (\<lambda>_ _. False) h"
    by (auto simp: local_serve_def local_answer_def wp_simps Let_def local_net_def in_pipe_def duplexD)
next
  fix k l h x
  assume "local_net cfd sfd k" "in_pipe cfd sfd [] (map to_upper l) h" "x = length l" "l \<noteq> []" "length l \<le> BUFSIZ"
  then show "wp (local_client_receive k cfd x)
      (\<lambda>_ h'. in_pipe cfd sfd [] [] h' \<and> lines_read h' = lines_read h \<and> printed h' = printed h @ map to_upper l)
      (\<lambda>_ _. False) h"
    by (auto simp: local_client_receive_def wp_simps Let_def local_net_def in_pipe_def duplexD)
qed

section \<open>A conversation\<close>

text \<open>
  C29. The client and the server of localSocket together, once connected: when the user types lines that fit the
  buffer, every exchange ends, the server stays on the connection, and each line is printed twice in upper case
  (by the server, then by the client), in the order of typing; nothing is left in the stream.
\<close>
theorem local_conversation:
  assumes "local_net cfd sfd k" and "types k ls" and "n \<le> length ls"
  shows "\<exists>buf' h. times n (local_exchange cfd sfd k) buf [] = (Inr buf', h) \<and>
    printed h = concat (map (\<lambda>l. map to_upper l @ map to_upper l) (take n ls)) \<and> in_pipe cfd sfd [] [] h"
  unfolding local_exchange_def by (rule loc.conversation[OF assms])

definition local_wire :: "bytes list \<Rightarrow> kernel" where
  "local_wire ls h c =
     (case c of
        CRead f n \<Rightarrow> let u = pending (7 - f) f h in mk_ret (int (min n (length u)))\<lparr>dat := take n u\<rparr>
      | CWrite f m \<Rightarrow> mk_ret (int (length m))
      | CFgets n \<Rightarrow> if lines_read h < length ls then mk_ret 1\<lparr>dat := ls ! lines_read h\<rparr> else mk_ret 0
      | _ \<Rightarrow> mk_ret 0)"

lemma local_wire_net: "local_net 3 4 (local_wire ls)"
  by (auto simp: local_net_def duplex_def delivers_def local_wire_def Let_def)

definition one_line :: "bytes list" where
  "one_line = [''hi'' @ [LF]]"

lemma local_wire_types: "types (local_wire one_line) one_line"
  by (simp add: types_def local_wire_def one_line_def)

theorem local_conversation_witness:
  "\<exists>buf' h. times 1 (local_exchange 3 4 (local_wire one_line)) [] [] = (Inr buf', h) \<and>
    printed h = ''HI'' @ [LF] @ ''HI'' @ [LF]"
proof -
  have len: "1 \<le> length one_line" by (simp add: one_line_def)
  obtain buf' h where "times 1 (local_exchange 3 4 (local_wire one_line)) [] [] = (Inr buf', h)"
    "printed h = concat (map (\<lambda>l. map to_upper l @ map to_upper l) (take 1 one_line))"
    using local_conversation[OF local_wire_net local_wire_types len] by blast
  moreover have "concat (map (\<lambda>l. map to_upper l @ map to_upper l) (take 1 one_line)) = ''HI'' @ [LF] @ ''HI'' @ [LF]"
    by code_simp
  ultimately show ?thesis by metis
qed

end
