(* ===== verification/Fork_Claims.thy ===== *)
theory Fork_Claims
  imports Blocking_Claims
begin

text \<open>
  Parent and children of \<^verbatim>\<open>socket/forkserver.c\<close>. A run is the history of one of these
  processes: that of a child begins with what its parent did before the fork.
\<close>

section \<open>What a process holds\<close>

text \<open>The connection accepted last, and the connections for which no child could be started.\<close>

fun last_conn :: "history \<Rightarrow> int" where
  "last_conn [] = -1"
| "last_conn ((c, r) # h) = (case c of CAccept l \<Rightarrow> ret r | _ \<Rightarrow> last_conn h)"

fun orphans :: "history \<Rightarrow> int set" where
  "orphans [] = {}"
| "orphans ((c, r) # h) =
     (case c of
        CFork \<Rightarrow> if ret r < 0 then insert (last_conn h) (orphans h) else orphans h
      | CClose fd \<Rightarrow> orphans h - {fd}
      | _ \<Rightarrow> orphans h)"

text \<open>Reading and writing connections in a set only (and the standard output).\<close>

definition talks_to :: "int set \<Rightarrow> history \<Rightarrow> bool" where
  "talks_to S h \<longleftrightarrow>
     (\<forall>(c, r) \<in> set h. case c of
        CRead fd n \<Rightarrow> fd \<in> S
      | CWrite fd b \<Rightarrow> fd \<in> insert STDOUT_FILENO S
      | CWriteHuge fd \<Rightarrow> fd \<in> insert STDOUT_FILENO S
      | _ \<Rightarrow> True)"

lemma talks_to_Nil [simp]: "talks_to S []"
  by (simp add: talks_to_def)

lemma talks_to_Cons [simp]:
  "talks_to S ((CRead fd n, r) # h) \<longleftrightarrow> fd \<in> S \<and> talks_to S h"
  "talks_to S ((CWrite fd b, r) # h) \<longleftrightarrow> fd \<in> insert STDOUT_FILENO S \<and> talks_to S h"
  "talks_to S ((CWriteHuge fd, r) # h) \<longleftrightarrow> fd \<in> insert STDOUT_FILENO S \<and> talks_to S h"
  "talks_to S ((CAccept l, r) # h) = talks_to S h" "talks_to S ((CFork, r) # h) = talks_to S h"
  "talks_to S ((CClose fd, r) # h) = talks_to S h" "talks_to S ((CSigaction, r) # h) = talks_to S h"
  "talks_to S ((CSocket d t p, r) # h) = talks_to S h" "talks_to S ((CSetReuse fd, r) # h) = talks_to S h"
  "talks_to S ((CBind fd a, r) # h) = talks_to S h" "talks_to S ((CListen fd a, r) # h) = talks_to S h"
  by (auto simp: talks_to_def)

lemma talks_to_mono: "talks_to {} h \<Longrightarrow> talks_to S h"
  by (fastforce simp: talks_to_def split: call.splits)

text \<open>The parent between two connections; a child at work.\<close>

definition parent_inv :: "int \<Rightarrow> history \<Rightarrow> bool" where
  "parent_inv fd h \<longleftrightarrow> open_conns h = orphans h \<and> fd \<notin> open_conns h \<and> talks_to {} h"

definition child_inv :: "int \<Rightarrow> history \<Rightarrow> bool" where
  "child_inv cfd h \<longleftrightarrow> last_conn h = cfd \<and> open_conns h - {cfd} = orphans h \<and> talks_to {cfd} h"

text \<open>The last call is a write to a peer that has gone.\<close>

definition broken_pipe :: "history \<Rightarrow> bool" where
  "broken_pipe h = (case h of (CWrite fd b, r) # _ \<Rightarrow> fd = last_conn h \<and> ret r = -1 \<and> err r = EPIPE
     | (CWriteHuge fd, r) # _ \<Rightarrow> fd = last_conn h \<and> ret r = -1 \<and> err r = EPIPE | _ \<Rightarrow> False)"

definition process_ends :: "stop \<Rightarrow> history \<Rightarrow> bool" where
  "process_ends e h \<longleftrightarrow>
     (e = Exit 1 \<and> open_conns h = orphans h \<and> talks_to {} h \<or> e = Fuel \<and> child_inv (last_conn h) h \<or>
      e = Killed \<and> broken_pipe h \<and> child_inv (last_conn h) h)"

lemma child_round_keeps:
  "child_inv cfd h \<Longrightarrow> wp (child_round k cfd u) (\<lambda>_. child_inv cfd) process_ends h"
  by (auto simp: child_round_def write_count_def answer_count_def wp_simps child_inv_def process_ends_def broken_pipe_def)

lemma fork_round_keeps:
  assumes fresh: "accept_fresh k" and inv: "parent_inv fd h"
  shows "wp (fork_round n k fd u) (\<lambda>_. parent_inv fd) process_ends h"
proof -
  let ?a = "k h (CAccept fd)"
  let ?h1 = "(CAccept fd, ?a) # h"
  let ?f = "k ?h1 CFork"
  let ?h2 = "(CFork, ?f) # ?h1"
  show ?thesis
  proof (cases "ret ?a < 0")
    case True
    then show ?thesis
      using inv by (simp add: fork_round_def Accept_def wp_simps process_ends_def parent_inv_def)
  next
    case False
    then have new: "ret ?a \<notin> open_conns h" "ret ?a \<noteq> fd" using accept_freshD[OF fresh, of h fd] by auto
    have "child_inv (ret ?a) ((CClose fd, r) # ?h2)" if "ret ?f = 0" for r
      using that inv new False by (auto simp: child_inv_def parent_inv_def intro: talks_to_mono)
    then have "wp (times n (child_round k (ret ?a)) ()) (\<lambda>_. child_inv (ret ?a)) process_ends ((CClose fd, r) # ?h2)"
      if "ret ?f = 0" for r
      using that by (auto intro: wp_times[where I = "\<lambda>_. child_inv (ret ?a)"] child_round_keeps)
    then have "wp (bnd (times n (child_round k (ret ?a)) ()) (\<lambda>_. halt Fuel)) (\<lambda>_. parent_inv fd) process_ends
        ((CClose fd, r) # ?h2)" if "ret ?f = 0" for r
      unfolding wp_bnd by (rule wp_mono) (use that in \<open>auto simp: wp_simps process_ends_def child_inv_def\<close>)
    then show ?thesis
      using inv new False by (auto simp: fork_round_def Accept_def wp_simps parent_inv_def)
  qed
qed

lemma wp_fork_server:
  assumes "accept_fresh k"
  shows "wp (fork_server rounds n k) (\<lambda>_ h. open_conns h = orphans h \<and> talks_to {} h) process_ends []"
proof -
  have "wp (open_listener k False 8888) parent_inv process_ends []"
    by (auto simp: open_listener_def wrapper_defs wp_simps process_ends_def parent_inv_def)
  moreover have "wp (times rounds (fork_round n k fd) ()) (\<lambda>_ h. open_conns h = orphans h \<and> talks_to {} h) process_ends h"
    if "parent_inv fd h" for fd h
    by (rule wp_mono[OF wp_times[where I = "\<lambda>_. parent_inv fd", OF fork_round_keeps[OF assms] that]])
      (auto simp: parent_inv_def)
  ultimately show ?thesis
    unfolding fork_server_def wp_bnd by (auto elim: wp_mono)
qed

text \<open>
  C33. The processes of the forking server, after any number of rounds: the parent has read and written no
  connection and has open only those whose fork failed, for which nobody cares; a child
  has read only the connection accepted last and written only to it and to the terminal, and
  it keeps open besides only the same abandoned ones. A child has no end of its own: it is ended only by SIGPIPE, when it writes to
  that connection after the client has gone. The only other end is the parent's exit after a failed call.
\<close>
theorem fork_server_processes:
  assumes "accept_fresh k" and "fork_server rounds n k [] = (r, h)"
  shows "(case r of
      Inr u \<Rightarrow> open_conns h = orphans h \<and> talks_to {} h
    | Inl e \<Rightarrow> e = Exit 1 \<and> open_conns h = orphans h \<and> talks_to {} h \<or>
        (e = Fuel \<or> e = Killed \<and> broken_pipe h) \<and> open_conns h - {last_conn h} = orphans h \<and> talks_to {last_conn h} h)"
  using wp_fork_server[OF assms(1), of rounds n] assms(2)
  by (auto simp: wp_def process_ends_def child_inv_def split: sum.splits)

text \<open>The first fork fails, the second makes a child, which reads two bytes and then the end of the stream.\<close>

definition fork_demo :: kernel where
  "fork_demo h c =
     (case c of
        CAccept l \<Rightarrow> mk_ret (if l = 3 \<and> open_conns h = {} then 4 else if l = 3 \<and> open_conns h = {4} then 5 else -1)
      | CFork \<Rightarrow> mk_ret (if last_conn h = 4 then -1 else 0)
      | CRead fd n \<Rightarrow> if read_bytes h = [] then mk_ret 2\<lparr>dat := ''hi''\<rparr> else mk_ret 0
      | CSocket d t p \<Rightarrow> mk_ret 3
      | _ \<Rightarrow> mk_ret 0)"

lemma fork_demo_fresh: "accept_fresh fork_demo"
  by (auto simp: accept_fresh_def fork_demo_def)

theorem fork_server_processes_witness:
  "\<exists>h. fork_server 2 2 fork_demo [] = (Inl Fuel, h) \<and> open_conns h - {last_conn h} = orphans h \<and> talks_to {last_conn h} h \<and>
    orphans h = {4}"
proof -
  obtain r h where run: "fork_server 2 2 fork_demo [] = (r, h)" by fastforce
  then have "r = Inl Fuel \<and> orphans h = {4}"
    by (auto simp: numeral_2_eq_2 fork_server_def open_listener_def wrapper_defs fork_round_def child_round_def write_count_def answer_count_def
        fork_demo_def io_simps)
  with fork_server_processes[OF fork_demo_fresh run] run show ?thesis by auto
qed

end
