(* ===== verification/Inet_Address.thy ===== *)
theory Inet_Address
  imports C_Strings
begin

text \<open>
  The addresses of \<^verbatim>\<open>ttcp/comm/InetAddress\<close>: a union of
  \<^verbatim>\<open>sockaddr_in\<close> and \<^verbatim>\<open>sockaddr_in6\<close>, modelled as the 28
  bytes both members share, with the fields at the offsets the file asserts (family 0, port 2;
  the IPv4 address is at 4, the IPv6 address at 8). The machine is little-endian, the port is in
  network order. Bytes that a constructor does not initialise are an argument
  (\<open>junk\<close>). \<^verbatim>\<open>inet_ntop\<close>, \<^verbatim>\<open>inet_pton\<close> and
  \<^verbatim>\<open>getaddrinfo\<close> are arguments.
\<close>

section \<open>Bytes and words\<close>

type_synonym inet_addr = bytes

abbreviation (input) AF_UNSPEC_16 :: "16 word" where "AF_UNSPEC_16 \<equiv> 0"
abbreviation (input) AF_INET_16 :: "16 word" where "AF_INET_16 \<equiv> 2"
abbreviation (input) AF_INET6_16 :: "16 word" where "AF_INET6_16 \<equiv> 10"

definition put_at :: "nat \<Rightarrow> bytes \<Rightarrow> bytes \<Rightarrow> bytes" where
  "put_at off xs a = take off a @ xs @ drop (off + length xs) a"

definition field :: "nat \<Rightarrow> nat \<Rightarrow> bytes \<Rightarrow> bytes" where
  "field off n a = take n (drop off a)"

definition le16 :: "16 word \<Rightarrow> bytes" where
  "le16 w = [char_of (unat w mod 256), char_of (unat w div 256)]"

definition of_le16 :: "bytes \<Rightarrow> 16 word" where
  "of_le16 b = word_of_nat (of_char (b ! 0) + 256 * of_char (b ! 1))"

definition htons :: "16 word \<Rightarrow> 16 word" where
  "htons w = push_bit 8 w OR drop_bit 8 w"

lemma length_put_at [simp]: "off + length xs \<le> length a \<Longrightarrow> length (put_at off xs a) = length a"
  by (simp add: put_at_def)

lemma length_le16 [simp]: "length (le16 w) = 2"
  by (simp add: le16_def)

lemma length_field: "off + n \<le> length a \<Longrightarrow> length (field off n a) = n"
  by (simp add: field_def)

lemma field_put_same [simp]: "off \<le> length a \<Longrightarrow> n = length xs \<Longrightarrow> field off n (put_at off xs a) = xs"
  by (simp add: field_def put_at_def)

lemma field_put_before [simp]: "off + n \<le> off' \<Longrightarrow> off' \<le> length a \<Longrightarrow> field off n (put_at off' xs a) = field off n a"
  by (auto simp: field_def put_at_def drop_take min_def)

lemma field_put_after [simp]:
  "off' + length xs \<le> off \<Longrightarrow> off' + length xs \<le> length a \<Longrightarrow> field off n (put_at off' xs a) = field off n a"
  by (simp add: field_def put_at_def)

lemma of_le16_le16 [simp]: "of_le16 (le16 w) = w"
proof -
  have "unat w < 256 * 256" using unsigned_less[of w] by simp
  then have "unat w div 256 < 256" by (simp add: less_mult_imp_div_less)
  then show ?thesis by (simp add: of_le16_def le16_def of_char_of)
qed

lemma of_le16_inj:
  assumes "length x = 2" and "length y = 2" and "of_le16 x = of_le16 y"
  shows "x = y"
proof -
  obtain a b c d where xy: "x = [a, b]" "y = [c, d]"
    using assms(1,2) by (auto simp: numeral_2_eq_2 length_Suc_conv)
  have bounds: "(of_char a :: nat) < 256" "(of_char b :: nat) < 256" "(of_char c :: nat) < 256" "(of_char d :: nat) < 256"
    by simp_all
  have "unat (word_of_nat n :: 16 word) = n" if "n < 65536" for n
    using that by (simp add: unat_of_nat take_bit_nat_eq_self)
  then have "(of_char a + 256 * of_char b :: nat) = of_char c + 256 * of_char d"
    using arg_cong[OF assms(3), of unat] bounds unfolding xy of_le16_def
    by (simp del: of_nat_add of_nat_mult)
  moreover have "p = r \<and> q = s" if "p + 256 * q = r + 256 * s" "p < 256" "r < 256" for p q r s :: nat
  proof -
    have "p = r" using arg_cong[OF that(1), of "\<lambda>x. x mod 256"] that(2,3) by simp
    then show ?thesis using that(1) by simp
  qed
  ultimately have "(of_char a :: nat) = of_char c \<and> (of_char b :: nat) = of_char d"
    using bounds by blast
  then show ?thesis by (simp add: xy)
qed

lemma htons_htons [simp]: "htons (htons w) = w"
proof (rule bit_word_eqI)
  fix n assume "n < LENGTH(16)"
  then show "bit (htons (htons w)) n = bit w n"
    by (auto simp: htons_def bit_simps)
qed

section \<open>Constructors and accessors\<close>

definition memZero :: "nat \<Rightarrow> bytes \<Rightarrow> bytes" where
  [simp]: "memZero n p = put_at 0 (replicate n NUL) p"

text \<open>What the system calls get: the bytes, and always the size of the larger address.\<close>

definition get_sockaddr :: "inet_addr \<Rightarrow> bytes" where
  "get_sockaddr a = field 0 28 a"

definition inet_length :: "inet_addr \<Rightarrow> nat" where
  "inet_length a = 28"

definition family :: "inet_addr \<Rightarrow> 16 word" where
  "family a = of_le16 (field 0 2 a)"

definition port :: "inet_addr \<Rightarrow> 16 word" where
  "port a = htons (of_le16 (field 2 2 a))"

definition setPort :: "16 word \<Rightarrow> inet_addr \<Rightarrow> inet_addr" where
  "setPort p a = put_at 2 (le16 (htons p)) a"

definition inet_default :: "bytes \<Rightarrow> inet_addr" where
  "inet_default junk = put_at 0 (le16 AF_UNSPEC_16) junk"

text \<open>The constructor from a text does not set the family.\<close>

definition inet_from_ip :: "(16 word \<Rightarrow> bytes \<Rightarrow> bytes option) \<Rightarrow> bytes \<Rightarrow> 16 word \<Rightarrow> bytes \<Rightarrow> stop + inet_addr" where
  "inet_from_ip pton ip p junk =
     (let a = setPort p junk in
      if CHR '':'' \<notin> set ip
      then (case pton AF_INET_16 ip of None \<Rightarrow> Inl Abort | Some b \<Rightarrow> Inr (put_at 4 b a))
      else (case pton AF_INET6_16 ip of None \<Rightarrow> Inl Abort | Some b \<Rightarrow> Inr (put_at 8 b a)))"

text \<open>The constructor for listening: any address; the IPv4 branch clears 16 of the 28 bytes.\<close>

definition inet_listen :: "16 word \<Rightarrow> bool \<Rightarrow> bytes \<Rightarrow> inet_addr" where
  "inet_listen p ipv6 junk =
     (if ipv6
      then put_at 2 (le16 (htons p)) (put_at 8 (replicate 16 NUL) (put_at 0 (le16 AF_INET6_16) (memZero 28 junk)))
      else put_at 2 (le16 (htons p)) (put_at 4 (replicate 4 NUL) (put_at 0 (le16 AF_INET_16) (memZero 16 junk))))"

definition inet_of_sockaddr :: "bytes \<Rightarrow> bytes \<Rightarrow> stop + inet_addr" where
  "inet_of_sockaddr saddr junk =
     (if family saddr = AF_INET_16 then Inr (put_at 0 (take 16 saddr) junk)
      else if family saddr = AF_INET6_16 then Inr (put_at 0 (take 28 saddr) junk)
      else Inl Abort)"

definition toIp :: "(16 word \<Rightarrow> bytes \<Rightarrow> bytes) \<Rightarrow> inet_addr \<Rightarrow> bytes" where
  "toIp ntop a =
     (if family a = AF_INET_16 then ntop AF_INET_16 (field 4 4 a)
      else if family a = AF_INET6_16 then ntop AF_INET6_16 (field 8 16 a)
      else [])"

definition toIpPort :: "(16 word \<Rightarrow> bytes \<Rightarrow> bytes) \<Rightarrow> inet_addr \<Rightarrow> bytes" where
  "toIpPort ntop a =
     (let buf = CHR '':'' # dec_nat (unat (port a)) in
      if family a = AF_INET6_16 then ''['' @ toIp ntop a @ '']'' @ buf
      else toIp ntop a @ buf)"

definition inet_eq :: "inet_addr \<Rightarrow> inet_addr \<Rightarrow> bool" where
  "inet_eq a b =
     (if family a = family b
      then if family a = AF_INET_16
           then of_le16 (field 2 2 a) = of_le16 (field 2 2 b) \<and> field 4 4 a = field 4 4 b
           else if family a = AF_INET6_16
           then of_le16 (field 2 2 a) = of_le16 (field 2 2 b) \<and> field 8 16 a = field 8 16 b
           else False
      else False)"

text \<open>
  \<open>gai\<close> is what getaddrinfo returns for a host: \<open>None\<close> for an error, else the
  addresses of its list, which the code asserts not to be empty.
\<close>

fun each_addr :: "bytes list \<Rightarrow> 16 word \<Rightarrow> bytes \<Rightarrow> stop + inet_addr list" where
  "each_addr [] p junk = Inr []"
| "each_addr (x # xs) p junk =
     (case inet_of_sockaddr x junk of
        Inl e \<Rightarrow> Inl e
      | Inr a \<Rightarrow> (case each_addr xs p junk of Inl e \<Rightarrow> Inl e | Inr as' \<Rightarrow> Inr (setPort p a # as')))"

definition resolveAll :: "(bytes \<Rightarrow> bytes list option) \<Rightarrow> bytes \<Rightarrow> 16 word \<Rightarrow> bytes \<Rightarrow> stop + inet_addr list" where
  "resolveAll gai host p junk =
     (case gai host of
        None \<Rightarrow> Inr []
      | Some xs \<Rightarrow> if xs = [] then Inl Abort else each_addr xs p junk)"

definition resolve :: "(bytes \<Rightarrow> bytes list option) \<Rightarrow> bytes \<Rightarrow> 16 word \<Rightarrow> bytes \<Rightarrow> stop + inet_addr option" where
  "resolve gai host p junk =
     (case resolveAll gai host p junk of
        Inl e \<Rightarrow> Inl e | Inr [] \<Rightarrow> Inr None | Inr (a # _) \<Rightarrow> Inr (Some a))"

section \<open>Lemmas\<close>

lemma port_setPort [simp]: "4 \<le> length a \<Longrightarrow> port (setPort p a) = p"
  by (simp add: port_def setPort_def)

lemma family_setPort [simp]: "2 \<le> length a \<Longrightarrow> family (setPort p a) = family a"
  by (simp add: family_def setPort_def)

lemma length_setPort [simp]: "4 \<le> length a \<Longrightarrow> length (setPort p a) = length a"
  by (simp add: setPort_def)

definition sockaddr_ok :: "bytes \<Rightarrow> bool" where
  "sockaddr_ok x \<longleftrightarrow> (if family x = AF_INET6_16 then 28 else 16) \<le> length x"

lemma each_addr_ok:
  assumes "each_addr xs p junk = Inr out" and "length junk = 28" and "\<forall>x \<in> set xs. sockaddr_ok x"
  shows "\<forall>a \<in> set out. length a = 28 \<and> port a = p \<and> family a \<in> {AF_INET_16, AF_INET6_16}"
  using assms(1,3)
proof (induction xs arbitrary: out)
  case (Cons x xs)
  then obtain a as' where a: "inet_of_sockaddr x junk = Inr a" and r: "each_addr xs p junk = Inr as'" "out = setPort p a # as'"
    by (auto split: sum.splits)
  have "length a = 28 \<and> family a \<in> {AF_INET_16, AF_INET6_16}"
    using a Cons.prems(2) assms(2)
    by (auto simp: inet_of_sockaddr_def sockaddr_ok_def family_def field_def put_at_def min_def split: if_splits)
  then show ?case using Cons.IH[OF r(1)] r(2) Cons.prems(2) by auto
qed simp

lemma dec_nat_inj: "dec_nat m = dec_nat n \<Longrightarrow> m = n"
  by (metis digits_val_dec_nat of_nat_eq_iff)

text \<open>Texts are equal when the parts around a character that does not occur before it are.\<close>

lemma split_at_char: "c \<notin> set x \<Longrightarrow> c \<notin> set y \<Longrightarrow> x @ c # u = y @ c # v \<longleftrightarrow> x = y \<and> u = v"
proof (induction x arbitrary: y)
  case Nil
  then show ?case by (cases y) auto
next
  case (Cons a x)
  then show ?case by (cases y) auto
qed

section \<open>Properties\<close>

text \<open>
  What is assumed of inet_ntop: it prints different addresses of a family differently, without
  brackets, and IPv4 addresses without a colon.
\<close>

definition ntop_ok :: "(16 word \<Rightarrow> bytes \<Rightarrow> bytes) \<Rightarrow> bool" where
  "ntop_ok ntop \<longleftrightarrow>
     (\<forall>f n x y. (f, n) \<in> {(AF_INET_16, 4), (AF_INET6_16, 16)} \<longrightarrow> length x = n \<longrightarrow> length y = n \<longrightarrow>
        ntop f x = ntop f y \<longrightarrow> x = y) \<and>
     (\<forall>f x. CHR ''['' \<notin> set (ntop f x) \<and> CHR '']'' \<notin> set (ntop f x)) \<and>
     (\<forall>x. CHR '':'' \<notin> set (ntop AF_INET_16 x))"

text \<open>
  C20. Two resolved addresses print the same text with toIpPort exactly when operator== holds of
  them, whatever their bytes that are no address and no port (flow information, scope, padding).
\<close>
theorem toIpPort_eq_iff:
  assumes "ntop_ok ntop" and "length a = 28" and "length b = 28"
    and "family a \<in> {AF_INET_16, AF_INET6_16}" and "family b \<in> {AF_INET_16, AF_INET6_16}"
  shows "toIpPort ntop a = toIpPort ntop b \<longleftrightarrow> inet_eq a b"
proof -
  have len: "length (field 2 2 x) = 2" "length (field 4 4 x) = 4" "length (field 8 16 x) = 16" if "length x = 28" for x
    using that by (simp_all add: length_field)
  have inj4: "ntop 2 x = ntop 2 y \<longleftrightarrow> x = y" if "length x = 4" "length y = 4" for x y
    using assms(1) that unfolding ntop_ok_def by blast
  have inj6: "ntop 10 x = ntop 10 y \<longleftrightarrow> x = y" if "length x = 16" "length y = 16" for x y
    using assms(1) that unfolding ntop_ok_def by blast
  have chars: "CHR ''['' \<notin> set (ntop f x)" "CHR '']'' \<notin> set (ntop f x)" "CHR '':'' \<notin> set (ntop 2 x)" for f x
    using assms(1) unfolding ntop_ok_def by blast+
  have ports: "dec_nat (unat (port a)) = dec_nat (unat (port b)) \<longleftrightarrow> of_le16 (field 2 2 a) = of_le16 (field 2 2 b)"
    unfolding port_def by (metis dec_nat_inj htons_htons unsigned_word_eqI)
  have bracket: "ntop 2 x @ CHR '':'' # u \<noteq> CHR ''['' # v" for x u v
    using chars(1)[of 2 x] by (cases "ntop 2 x") auto
  show ?thesis
    using assms(4,5) ports inj4[OF len(2)[OF assms(2)] len(2)[OF assms(3)]] inj6[OF len(3)[OF assms(2)] len(3)[OF assms(3)]]
      chars bracket bracket[symmetric]
    by (auto simp: toIpPort_def toIp_def inet_eq_def Let_def split_at_char)
qed

definition nibbles :: "16 word \<Rightarrow> bytes \<Rightarrow> bytes" where
  "nibbles f x = concat (map (\<lambda>c. [char_of (65 + of_char c div 16 :: nat), char_of (65 + of_char c mod 16 :: nat)]) x)"

lemma nibbles_ok: "ntop_ok nibbles"
proof -
  have byte: "(of_char c :: nat) < 256" for c by simp
  have one: "c = d" if "(of_char c :: nat) div 16 = of_char d div 16" "(of_char c :: nat) mod 16 = of_char d mod 16" for c d
    using that by (metis div_mod_decomp of_char_eq_iff)
  have lt: "65 + (of_char c :: nat) div 16 < 81" "65 + (of_char c :: nat) mod 16 < 81" for c
    using byte[of c] by (auto simp: less_mult_imp_div_less)
  have code: "(of_char (char_of n :: char) :: nat) = n" if "n < 81" for n :: nat
    using that by (simp add: of_char_of)
  have inj: "m = n" if "char_of m = (char_of n :: char)" "m < 81" "n < 81" for m n :: nat
    using code[OF that(2)] code[OF that(3)] that(1) by simp
  have step: "c = d" if "char_of (65 + of_char c div 16 :: nat) = (char_of (65 + of_char d div 16 :: nat) :: char)"
    "char_of (65 + of_char c mod 16 :: nat) = (char_of (65 + of_char d mod 16 :: nat) :: char)" for c d
    using inj[OF that(1) lt(1) lt(1)] inj[OF that(2) lt(2) lt(2)] by (intro one) simp_all
  have "length x = length y \<Longrightarrow> nibbles f x = nibbles f y \<Longrightarrow> x = y" for f x y
  proof (induction x y rule: list_induct2)
    case (Cons c x d y)
    then show ?case using step[of c d] by (simp add: nibbles_def)
  qed simp
  moreover have "65 \<le> (of_char c :: nat) \<and> (of_char c :: nat) < 81" if "c \<in> set (nibbles f x)" for c f x
    using that code[OF lt(1)] code[OF lt(2)] lt by (auto simp: nibbles_def)
  then have "CHR ''['' \<notin> set (nibbles f x)" "CHR '']'' \<notin> set (nibbles f x)" "CHR '':'' \<notin> set (nibbles f x)" for f x
    by force+
  ultimately show ?thesis
    unfolding ntop_ok_def by blast
qed

text \<open>Two IPv4 addresses that differ in their padding.\<close>

theorem toIpPort_eq_iff_witness:
  "toIpPort nibbles (inet_listen 3007 False (replicate 28 CHR ''x'')) = toIpPort nibbles (inet_listen 3007 False (replicate 28 NUL))"
proof -
  let ?a = "inet_listen 3007 False (replicate 28 CHR ''x'')" and ?b = "inet_listen 3007 False (replicate 28 NUL)"
  have ab: "length ?a = 28" "length ?b = 28" "family ?a = 2" "family ?b = 2" "inet_eq ?a ?b"
    by (simp_all add: inet_listen_def family_def inet_eq_def)
  then show ?thesis
    using toIpPort_eq_iff[OF nibbles_ok ab(1,2)] by simp
qed

text \<open>
  C38. Every address that resolveAll returns is a full IPv4 or IPv6 address with the requested
  port, and resolve returns the first of them, or nothing when there is none; unless
  getaddrinfo delivers an address of another family, which aborts.
\<close>
theorem resolve_results:
  assumes "length junk = 28" and "\<forall>xs. gai host = Some xs \<longrightarrow> (\<forall>x \<in> set xs. sockaddr_ok x)"
    and "resolveAll gai host p junk = Inr as'"
  shows "(\<forall>a \<in> set as'. length a = 28 \<and> port a = p \<and> family a \<in> {AF_INET_16, AF_INET6_16}) \<and>
    resolve gai host p junk = Inr (if as' = [] then None else Some (hd as'))"
proof -
  have "\<forall>a \<in> set as'. length a = 28 \<and> port a = p \<and> family a \<in> {AF_INET_16, AF_INET6_16}"
  proof (cases "gai host")
    case None
    then show ?thesis using assms(3) by (simp add: resolveAll_def)
  next
    case (Some xs)
    then have "each_addr xs p junk = Inr as'" using assms(3) by (simp add: resolveAll_def split: if_splits)
    then show ?thesis using each_addr_ok assms(1,2) Some by blast
  qed
  then show ?thesis using assms(3) by (cases as') (auto simp: resolve_def)
qed

definition two_hosts :: "bytes \<Rightarrow> bytes list option" where
  "two_hosts host = Some [inet_listen 0 True (replicate 28 NUL), inet_listen 0 False (replicate 28 NUL)]"

theorem resolve_results_witness:
  "\<exists>a. resolve two_hosts ''h'' 3007 (replicate 28 NUL) = Inr (Some a) \<and> port a = 3007 \<and> family a = AF_INET6_16"
proof -
  let ?z = "replicate 28 NUL :: bytes"
  let ?x = "inet_listen 0 True ?z" and ?y = "inet_listen 0 False ?z"
  have fam: "family ?x = 10" "family ?y = 2" "length ?x = 28" "length ?y = 28"
    by (simp_all add: inet_listen_def family_def)
  then obtain as' where r: "resolveAll two_hosts ''h'' 3007 ?z = Inr (setPort 3007 ?x # as')"
    by (simp add: resolveAll_def two_hosts_def inet_of_sockaddr_def put_at_def)
  have "\<forall>xs. two_hosts ''h'' = Some xs \<longrightarrow> (\<forall>x \<in> set xs. sockaddr_ok x)"
    using fam by (simp add: two_hosts_def sockaddr_ok_def)
  from resolve_results[OF _ this r] fam show ?thesis by simp
qed

end
