(* ===== verification/Tcp_Stream.thy ===== *)
theory Tcp_Stream
  imports Inet_Address
begin

text \<open>
  The classes of \<^verbatim>\<open>ttcp/comm\<close> over system calls: \<^verbatim>\<open>Socket\<close>
  (an owned descriptor, \<open>-1\<close> when it was moved from), \<^verbatim>\<open>TcpStream\<close> (a
  socket that is connected) and \<^verbatim>\<open>Acceptor\<close>. A socket is its descriptor; a
  constructor returns it, a destructor is a program, and moving returns the new socket and
  what is left in the old one. A \<^verbatim>\<open>TcpStreamPtr\<close> is an option. Assertions are
  on: the build does not define \<^verbatim>\<open>NDEBUG\<close>.
\<close>

section \<open>Socket\<close>

definition assert_io :: "bool \<Rightarrow> unit io" where
  "assert_io b = (if b then pure () else halt Abort)"

definition sock_new :: "int \<Rightarrow> int io" where
  "sock_new fd = bnd (assert_io (0 \<le> fd)) (\<lambda>_. pure fd)"

definition sock_delete :: "kernel \<Rightarrow> int \<Rightarrow> unit io" where
  "sock_delete k fd =
     (if 0 \<le> fd then bnd (sys k (CClose fd)) (\<lambda>r. assert_io (ret r = 0)) else pure ())"

text \<open>The new socket, and the old one afterwards.\<close>

definition sock_move :: "int \<Rightarrow> (int \<times> int) io" where
  "sock_move rhs = bnd (sock_new rhs) (\<lambda>fd. pure (fd, -1))"

definition sock_swap :: "int \<Rightarrow> int \<Rightarrow> int \<times> int" where
  "sock_swap lhs rhs = (rhs, lhs)"

text \<open>An address as \<^verbatim>\<open>bind\<close> and \<^verbatim>\<open>connect\<close> see it.\<close>

abbreviation addr_arg :: "inet_addr \<Rightarrow> bytes" where
  "addr_arg a \<equiv> take (inet_length a) (get_sockaddr a)"

definition bindOrDie :: "kernel \<Rightarrow> int \<Rightarrow> inet_addr \<Rightarrow> unit io" where
  "bindOrDie k fd addr = bnd (sys k (CBindAddr fd (addr_arg addr))) (\<lambda>r. if ret r \<noteq> 0 then halt Abort else pure ())"

definition listenOrDie :: "kernel \<Rightarrow> int \<Rightarrow> unit io" where
  "listenOrDie k fd = bnd (sys k (CListen fd 4096)) (\<lambda>r. if ret r \<noteq> 0 then halt Abort else pure ())"

definition sock_connect :: "kernel \<Rightarrow> int \<Rightarrow> inet_addr \<Rightarrow> int io" where
  "sock_connect k fd addr = bnd (sys k (CConnectAddr fd (addr_arg addr))) (\<lambda>r. pure (ret r))"

definition sock_shutdownWrite :: "kernel \<Rightarrow> int \<Rightarrow> unit io" where
  "sock_shutdownWrite k fd = bnd (sys k (CShutdown fd)) (\<lambda>_. pure ())"

definition setReuseAddr :: "kernel \<Rightarrow> int \<Rightarrow> bool \<Rightarrow> unit io" where
  "setReuseAddr k fd on = bnd (sys k (CSetOpt fd ''SO_REUSEADDR'' (if on then 1 else 0))) (\<lambda>_. pure ())"

definition setTcpNoDelay :: "kernel \<Rightarrow> int \<Rightarrow> bool \<Rightarrow> unit io" where
  "setTcpNoDelay k fd on = bnd (sys k (CSetOpt fd ''TCP_NODELAY'' (if on then 1 else 0))) (\<lambda>_. pure ())"

text \<open>When the call fails, the address is read although nothing was stored in it.\<close>

definition getLocalAddr :: "kernel \<Rightarrow> bytes \<Rightarrow> int \<Rightarrow> inet_addr io" where
  "getLocalAddr k junk fd =
     bnd (sys k (CGetSockName fd)) (\<lambda>r.
       if ret r < 0 then halt (Undef UninitUse) else lift (inet_of_sockaddr (dat r) junk))"

definition getPeerAddr :: "kernel \<Rightarrow> bytes \<Rightarrow> int \<Rightarrow> inet_addr io" where
  "getPeerAddr k junk fd =
     bnd (sys k (CGetPeerName fd)) (\<lambda>r.
       if ret r < 0 then halt (Undef UninitUse) else lift (inet_of_sockaddr (dat r) junk))"

definition sock_recv :: "kernel \<Rightarrow> int \<Rightarrow> nat \<Rightarrow> resp io" where
  "sock_recv k fd len = sys k (CRecv fd len False)"

definition sock_send :: "kernel \<Rightarrow> int \<Rightarrow> bytes \<Rightarrow> int io" where
  "sock_send k fd b = bnd (sys k (CSend fd b)) (\<lambda>r. pure (ret r))"

definition createTCP :: "kernel \<Rightarrow> 16 word \<Rightarrow> int io" where
  "createTCP k fam =
     bnd (sys k (CSocket (uint fam) SOCK_STREAM 6)) (\<lambda>r. bnd (assert_io (0 \<le> ret r)) (\<lambda>_. sock_new (ret r)))"

definition createUDP :: "kernel \<Rightarrow> 16 word \<Rightarrow> int io" where
  "createUDP k fam =
     bnd (sys k (CSocket (uint fam) SOCK_DGRAM 17)) (\<lambda>r. bnd (assert_io (0 \<le> ret r)) (\<lambda>_. sock_new (ret r)))"

section \<open>TcpStream\<close>

definition isSelfConnection :: "kernel \<Rightarrow> bytes \<Rightarrow> int \<Rightarrow> bool io" where
  "isSelfConnection k junk fd =
     bnd (getLocalAddr k junk fd) (\<lambda>a. bnd (getPeerAddr k junk fd) (\<lambda>b. pure (inet_eq a b)))"

definition tcp_stream_new :: "int \<Rightarrow> (int \<times> int) io" where
  "tcp_stream_new fd = sock_move fd"

definition receiveAll :: "kernel \<Rightarrow> int \<Rightarrow> nat \<Rightarrow> resp io" where
  "receiveAll k fd len = sys k (CRecvAll fd len)"

definition receiveSome :: "kernel \<Rightarrow> int \<Rightarrow> nat \<Rightarrow> resp io" where
  "receiveSome k fd len = sock_recv k fd len"

definition tcp_setTcpNoDelay :: "kernel \<Rightarrow> int \<Rightarrow> bool \<Rightarrow> unit io" where
  "tcp_setTcpNoDelay k fd on = setTcpNoDelay k fd on"

definition tcp_shutdownWrite :: "kernel \<Rightarrow> int \<Rightarrow> unit io" where
  "tcp_shutdownWrite k fd = sock_shutdownWrite k fd"

definition tcp_getLocalAddr :: "kernel \<Rightarrow> bytes \<Rightarrow> int \<Rightarrow> inet_addr io" where
  "tcp_getLocalAddr k junk fd = getLocalAddr k junk fd"

definition tcp_getPeerAddr :: "kernel \<Rightarrow> bytes \<Rightarrow> int \<Rightarrow> inet_addr io" where
  "tcp_getPeerAddr k junk fd = getPeerAddr k junk fd"

text \<open>One send of the loop of \<^verbatim>\<open>sendAll\<close>: from the first byte not yet written.\<close>

definition send_step :: "kernel \<Rightarrow> int \<Rightarrow> bytes \<Rightarrow> nat \<Rightarrow> int io" where
  "send_step k fd buf written = sock_send k fd (drop written buf)"

fun send_from :: "nat \<Rightarrow> kernel \<Rightarrow> int \<Rightarrow> bytes \<Rightarrow> nat \<Rightarrow> nat io" where
  "send_from 0 k fd buf written = halt Fuel"
| "send_from (Suc n) k fd buf written =
     (if written < length buf
      then bnd (send_step k fd buf written) (\<lambda>nw.
             if 0 < nw then send_from n k fd buf (written + nat nw) else pure written)
      else pure written)"

text \<open>Each round writes at least one byte, so one more round than bytes is enough.\<close>

definition sendAll :: "kernel \<Rightarrow> int \<Rightarrow> bytes \<Rightarrow> nat io" where
  "sendAll k fd buf = send_from (Suc (length buf)) k fd buf 0"

definition sendSome :: "kernel \<Rightarrow> int \<Rightarrow> bytes \<Rightarrow> int io" where
  "sendSome k fd b = sock_send k fd b"

text \<open>The local socket is destroyed at the end, whether or not it was moved into a stream.\<close>

definition connectInternal :: "kernel \<Rightarrow> bytes \<Rightarrow> inet_addr \<Rightarrow> inet_addr option \<Rightarrow> int option io" where
  "connectInternal k junk serverAddr localAddr =
     bnd (createTCP k (family serverAddr)) (\<lambda>sock.
     bnd (case localAddr of None \<Rightarrow> pure () | Some a \<Rightarrow> bindOrDie k sock a) (\<lambda>_.
     bnd (sock_connect k sock serverAddr) (\<lambda>r.
     bnd (if r = 0 then bnd (isSelfConnection k junk sock) (\<lambda>s. pure (\<not> s)) else pure False) (\<lambda>ok.
     bnd (if ok then bnd (tcp_stream_new sock) (\<lambda>(s, sock). pure (Some s, sock)) else pure (None, sock)) (\<lambda>(stream, sock).
     bnd (sock_delete k sock) (\<lambda>_. pure stream))))))"

definition tcp_connect :: "kernel \<Rightarrow> bytes \<Rightarrow> inet_addr \<Rightarrow> int option io" where
  "tcp_connect k junk serverAddr = connectInternal k junk serverAddr None"

definition tcp_connect_from :: "kernel \<Rightarrow> bytes \<Rightarrow> inet_addr \<Rightarrow> inet_addr \<Rightarrow> int option io" where
  "tcp_connect_from k junk serverAddr localAddr = connectInternal k junk serverAddr (Some localAddr)"

section \<open>Acceptor\<close>

definition acceptor_new :: "kernel \<Rightarrow> inet_addr \<Rightarrow> int io" where
  "acceptor_new k listenAddr =
     bnd (createTCP k (family listenAddr)) (\<lambda>fd.
     bnd (setReuseAddr k fd True) (\<lambda>_.
     bnd (bindOrDie k fd listenAddr) (\<lambda>_.
     bnd (listenOrDie k fd) (\<lambda>_. pure fd))))"

definition acceptor_accept :: "kernel \<Rightarrow> int \<Rightarrow> int option io" where
  "acceptor_accept k lfd =
     bnd (sys k (CAccept lfd)) (\<lambda>r.
       if 0 \<le> ret r
       then bnd (sock_new (ret r)) (\<lambda>fd. bnd (tcp_stream_new fd) (\<lambda>(s, old). bnd (sock_delete k old) (\<lambda>_. pure (Some s))))
       else pure None)"

definition acceptSocketOrDie :: "kernel \<Rightarrow> int \<Rightarrow> int io" where
  "acceptSocketOrDie k lfd =
     bnd (sys k (CAccept lfd)) (\<lambda>r. if 0 \<le> ret r then sock_new (ret r) else halt Abort)"

lemmas sock_defs = assert_io_def sock_new_def sock_delete_def sock_move_def bindOrDie_def listenOrDie_def
  sock_connect_def sock_shutdownWrite_def setReuseAddr_def setTcpNoDelay_def getLocalAddr_def getPeerAddr_def
  sock_recv_def sock_send_def createTCP_def createUDP_def isSelfConnection_def tcp_stream_new_def receiveAll_def
  receiveSome_def send_step_def sendSome_def tcp_setTcpNoDelay_def tcp_shutdownWrite_def tcp_getLocalAddr_def tcp_getPeerAddr_def

section \<open>What the classes keep\<close>

text \<open>The open descriptors of all kinds.\<close>

fun open_fds :: "history \<Rightarrow> int set" where
  "open_fds [] = {}"
| "open_fds ((c, r) # h) =
     (case c of
        CSocket d t p \<Rightarrow> if 0 \<le> ret r then insert (ret r) (open_fds h) else open_fds h
      | CAccept l \<Rightarrow> if 0 \<le> ret r then insert (ret r) (open_fds h) else open_fds h
      | CClose fd \<Rightarrow> open_fds h - {fd}
      | _ \<Rightarrow> open_fds h)"

definition send_bounded :: "kernel \<Rightarrow> bool" where
  "send_bounded k \<longleftrightarrow> (\<forall>h fd b. ret (k h (CSend fd b)) \<le> int (length b))"

text \<open>New descriptors are not open.\<close>

definition fresh_sockets :: "kernel \<Rightarrow> bool" where
  "fresh_sockets k \<longleftrightarrow>
     (\<forall>h d t p. ret (k h (CSocket d t p)) \<notin> open_fds h) \<and> (\<forall>h l. ret (k h (CAccept l)) \<notin> open_fds h)"

text \<open>The last call of a history is a send on the descriptor that did not write anything.\<close>

definition send_failed :: "int \<Rightarrow> history \<Rightarrow> bool" where
  "send_failed fd h = (case h of (CSend d b, r) # _ \<Rightarrow> d = fd \<and> ret r \<le> 0 | _ \<Rightarrow> False)"

lemma send_from_spec:
  assumes "send_bounded k" and "length buf < w + n" and "w \<le> length buf"
  shows "wp (send_from n k fd buf w)
    (\<lambda>m h'. m \<le> length buf \<and> (m = length buf \<or> send_failed fd h') \<and>
       sent_on fd h' = sent_on fd h @ take (m - w) (drop w buf) \<and> w \<le> m) (\<lambda>_ _. False) h"
  using assms(2,3)
proof (induction n arbitrary: w h)
  case (Suc n)
  show ?case
  proof (cases "w < length buf")
    case False
    then show ?thesis using Suc.prems by (simp add: wp_simps)
  next
    case True
    let ?r = "k h (CSend fd (drop w buf))"
    let ?h = "(CSend fd (drop w buf), ?r) # h"
    have b: "ret ?r \<le> int (length buf - w)"
      using assms(1) unfolding send_bounded_def by (metis length_drop)
    show ?thesis
    proof (cases "0 < ret ?r")
      case False
      then show ?thesis using True by (simp add: wp_simps sock_defs send_failed_def)
    next
      case r: True
      let ?w = "w + nat (ret ?r)"
      have "take (m - w) (drop w buf) = take (nat (ret ?r)) (drop w buf) @ take (m - ?w) (drop ?w buf)"
        if "?w \<le> m" for m
        using that take_add[of "nat (ret ?r)" "m - ?w" "drop w buf"] by (simp add: add.commute)
      moreover have "take (nat (ret ?r)) (drop w buf) @ drop ?w buf = drop w buf"
        by (metis append_take_drop_id drop_drop add.commute)
      moreover have "length buf < ?w + n" "?w \<le> length buf" using Suc.prems b r by linarith+
      ultimately show ?thesis
        using True r Suc.IH[of ?w ?h]
        by (simp add: wp_simps sock_defs) (auto elim!: wp_mono)
    qed
  qed
qed simp

lemma send_from_open: "wp (send_from n k fd buf w) (\<lambda>m h'. open_fds h' = open_fds h) any_stop h"
proof (induction n arbitrary: w h)
  case (Suc n)
  have "wp (send_from n k fd buf w') (\<lambda>m h'. open_fds h' = open_fds h) any_stop ((CSend fd b, r) # h)" for w' b r
    using Suc[of w' "(CSend fd b, r) # h"] by simp
  then show ?case by (simp add: wp_simps sock_defs)
qed (simp add: wp_simps)

section \<open>Properties\<close>

text \<open>
  C16. sendAll always returns: it reports how many bytes it has put on the connection, these are
  the first bytes of its buffer, each once and in order, and the count is less than the
  length only when a send has failed or written nothing.
\<close>
theorem sendAll_sends:
  assumes "send_bounded k"
  shows "\<exists>n h'. sendAll k fd buf h = (Inr n, h') \<and> sent_on fd h' = sent_on fd h @ take n buf \<and>
    n \<le> length buf \<and> (n = length buf \<or> send_failed fd h')"
  using send_from_spec[OF assms, of buf 0 "Suc (length buf)" fd h]
  unfolding sendAll_def by (auto simp: wp_def split: prod.splits sum.splits)

definition three_a_time :: kernel where
  "three_a_time h c =
     (case c of
        CSend fd b \<Rightarrow> mk_ret (min 3 (int (length b)))
      | CRecv fd n p \<Rightarrow> mk_ret (int (min n 4))\<lparr>dat := take (min n 4) ''abcd''\<rparr>
      | CSocket d t p \<Rightarrow> mk_ret (if int (length h) + 3 \<in> open_fds h then -1 else int (length h) + 3)
      | CAccept l \<Rightarrow> mk_ret (if int (length h) + 3 \<in> open_fds h then -1 else int (length h) + 3)
      | CGetSockName fd \<Rightarrow> mk_ret 0\<lparr>dat := inet_listen 4000 False (replicate 28 NUL)\<rparr>
      | CGetPeerName fd \<Rightarrow> mk_ret 0\<lparr>dat := inet_listen 3007 False (replicate 28 NUL)\<rparr>
      | _ \<Rightarrow> mk_ret 0)"

lemma three_a_time_ok: "send_bounded three_a_time"
  by (simp add: send_bounded_def three_a_time_def)

theorem sendAll_sends_witness:
  "\<exists>h'. sendAll three_a_time 5 ''hello'' [] = (Inr 5, h') \<and> sent_on 5 h' = ''hello''"
proof -
  obtain n h' where r: "sendAll three_a_time 5 ''hello'' [] = (Inr n, h')" "sent_on 5 h' = take n ''hello''"
    using sendAll_sends[OF three_a_time_ok, of 5 "''hello''" "[]"] by auto
  have "fst (sendAll three_a_time 5 ''hello'' []) = Inr 5" by code_simp
  with r show ?thesis by auto
qed

lemma open_fds_keep:
  "(case c of CSocket d t p \<Rightarrow> False | CAccept l \<Rightarrow> False | CClose fd \<Rightarrow> False | _ \<Rightarrow> True) \<Longrightarrow>
     open_fds ((c, r) # h) = open_fds h"
  by (cases c) auto

lemma connect_wp:
  assumes "fresh_sockets k"
  shows "wp (connectInternal k junk srv loc)
      (\<lambda>res h'. open_fds h' = (case res of None \<Rightarrow> open_fds h | Some fd \<Rightarrow> insert fd (open_fds h)) \<and>
         (\<forall>fd. res = Some fd \<longrightarrow> fd \<notin> open_fds h \<and> (\<exists>r. (CConnectAddr fd (addr_arg srv), r) \<in> set h' \<and> ret r = 0))) any_stop h"
proof -
  have fresh: "ret (k h (CSocket d t p)) \<notin> open_fds h" for h d t p
    using assms by (simp add: fresh_sockets_def)
  have lifted: "wp (lift x) Q any_stop h = (\<forall>a. x = Inr a \<longrightarrow> Q a h)" for x and Q :: "bytes \<Rightarrow> history \<Rightarrow> bool" and h
    by (cases x) (simp_all add: wp_simps)
  show ?thesis
    using fresh[of h "uint (family srv)" 1 6]
    by (cases loc) (auto simp: connectInternal_def sock_defs wp_simps lifted)
qed

text \<open>
  C19. connect neither leaks nor loses a descriptor: when it returns a stream, the stream owns
  the one descriptor that became open; when it returns nothing (the connection failed, or was
  a connection to itself) the socket it created is closed again. A stream is only returned when
  the call of connect gave 0.
\<close>
theorem connect_owns_descriptor:
  assumes "fresh_sockets k" and "connectInternal k junk srv loc h = (Inr res, h')"
  shows "open_fds h' = (case res of None \<Rightarrow> open_fds h | Some fd \<Rightarrow> insert fd (open_fds h)) \<and>
    (\<forall>fd. res = Some fd \<longrightarrow> fd \<notin> open_fds h \<and> (\<exists>r. (CConnectAddr fd (addr_arg srv), r) \<in> set h' \<and> ret r = 0))"
  using wp_InrD[OF connect_wp[OF assms(1)] assms(2)] .

lemma open_fds_nonneg: "fd \<in> open_fds h \<Longrightarrow> 0 \<le> fd"
proof (induction h)
  case (Cons e h)
  obtain c r where "e = (c, r)" by fastforce
  with Cons show ?case by (cases c) (auto split: if_splits)
qed simp

lemma three_a_time_fresh: "fresh_sockets three_a_time"
  using open_fds_nonneg[of "-1"] by (auto simp: fresh_sockets_def three_a_time_def)

lemma demo_addr: "family (inet_listen p False (replicate 28 NUL)) = 2" "length (inet_listen p False (replicate 28 NUL)) = 28"
  "field 2 2 (inet_listen p False (replicate 28 NUL)) = le16 (htons p)"
  by (simp_all add: inet_listen_def family_def)

lemma demo_not_self:
  "\<not> inet_eq (put_at 0 (take 16 (inet_listen 4000 False (replicate 28 NUL))) (replicate 28 NUL))
           (put_at 0 (take 16 (inet_listen 3007 False (replicate 28 NUL))) (replicate 28 NUL))"
proof -
  let ?a = "inet_listen 4000 False (replicate 28 NUL)" and ?b = "inet_listen 3007 False (replicate 28 NUL)"
  have port: "of_le16 (field 2 2 ?a) \<noteq> of_le16 (field 2 2 ?b)"
    unfolding demo_addr(3) by (simp add: htons_def)
  let ?copy = "\<lambda>x. put_at 0 (take 16 x) (replicate 28 NUL)"
  have copy: "field off n (?copy x) = field off n x" if "length x = 28" "off + n \<le> 16" for off n x
    using that by (auto simp: field_def put_at_def drop_take min_def)
  show ?thesis
    using port demo_addr copy[of ?a 0 2] copy[of ?b 0 2] copy[of ?a 2 2] copy[of ?b 2 2]
    by (simp add: inet_eq_def family_def)
qed

theorem connect_owns_descriptor_witness:
  "\<exists>h'. connectInternal three_a_time (replicate 28 NUL) (inet_listen 3007 False (replicate 28 NUL)) None [] = (Inr (Some 3), h') \<and>
    open_fds h' = {3}"
proof -
  let ?b = "inet_listen 3007 False (replicate 28 NUL)"
  obtain h' where r: "connectInternal three_a_time (replicate 28 NUL) ?b None [] = (Inr (Some 3), h')"
    using demo_addr demo_not_self
    by (simp add: connectInternal_def sock_defs io_simps three_a_time_def inet_of_sockaddr_def)
  from connect_owns_descriptor[OF three_a_time_fresh r] r show ?thesis by simp
qed

end
