(* ===== verification/Ttcp_Echo.thy ===== *)
theory Ttcp_Echo
  imports Tcp_Stream Slots "HOL-Library.Sublist"
begin

text \<open>
  The echo server and client of \<^verbatim>\<open>ttcp/echo.cc\<close> and
  \<^verbatim>\<open>ttcp/echo_client.cc\<close>. The server's threads are detached and share nothing
  but the kernel; a turn of a thread is one system call, and a schedule interleaves them with
  the accepting main thread.
\<close>

section \<open>The server\<close>

text \<open>
  Where a thread stands: its stream pointer is null, it is about to receive, it is inside
  \<^verbatim>\<open>sendAll\<close> with its buffer and the number of bytes written, or it has ended.
\<close>

datatype conn = NoStream | Receiving int | Sending int bytes nat | Ended

record echo_state =
  acc_fd :: int
  nodelay :: bool
  clients :: "conn list"

datatype echo_turn = AcceptTurn | WorkTurn nat

definition echo_accept :: "kernel \<Rightarrow> echo_state \<Rightarrow> echo_state io" where
  "echo_accept k s =
     bnd (acceptor_accept k (acc_fd s)) (\<lambda>p.
     bnd (if nodelay s
          then (case p of None \<Rightarrow> halt (Undef NullDeref) | Some fd \<Rightarrow> tcp_setTcpNoDelay k fd True)
          else pure ()) (\<lambda>_.
       pure (s\<lparr>clients := clients s @ [case p of None \<Rightarrow> NoStream | Some fd \<Rightarrow> Receiving fd]\<rparr>)))"

definition echo_end :: "kernel \<Rightarrow> int \<Rightarrow> conn io" where
  "echo_end k fd = bnd (sock_delete k fd) (\<lambda>_. pure Ended)"

definition echo_work :: "kernel \<Rightarrow> conn \<Rightarrow> conn io" where
  "echo_work k c =
     (case c of
        NoStream \<Rightarrow> halt (Undef NullDeref)
      | Receiving fd \<Rightarrow>
          bnd (receiveSome k fd 4096) (\<lambda>r.
            if 0 < ret r then pure (Sending fd (take (nat (ret r)) (dat r)) 0) else echo_end k fd)
      | Sending fd buf w \<Rightarrow>
          if w < length buf
          then bnd (send_step k fd buf w) (\<lambda>nw.
                 if 0 < nw then pure (Sending fd buf (w + nat nw)) else echo_end k fd)
          else pure (Receiving fd)
      | Ended \<Rightarrow> halt Blocked)"

definition echo_step :: "kernel \<Rightarrow> echo_turn \<Rightarrow> echo_state \<Rightarrow> echo_state io" where
  "echo_step k t s =
     (case t of
        AcceptTurn \<Rightarrow> echo_accept k s
      | WorkTurn i \<Rightarrow>
          if i < length (clients s)
          then bnd (echo_work k (clients s ! i)) (\<lambda>c. pure (s\<lparr>clients := (clients s)[i := c]\<rparr>))
          else halt Blocked)"

definition echo_server :: "kernel \<Rightarrow> bytes list \<Rightarrow> bytes \<Rightarrow> echo_turn list \<Rightarrow> echo_state io" where
  "echo_server k args junk sched =
     (let ipv6 = ''-6'' \<in> set (tl args); nd = ''-D'' \<in> set (tl args) in
      bnd (acceptor_new k (inet_listen 3007 ipv6 junk)) (\<lambda>lfd.
        for_io sched (echo_step k) \<lparr>acc_fd = lfd, nodelay = nd, clients = []\<rparr>))"

section \<open>The client\<close>

datatype outcome = Usage | Unresolved | Unconnected | ClosedEarly | Finished int int

text \<open>
  The commands given as third argument; the result says whether the client goes on to receive.
\<close>

fun client_cmds :: "kernel \<Rightarrow> int \<Rightarrow> bytes \<Rightarrow> bool io" where
  "client_cmds k fd [] = pure True"
| "client_cmds k fd (c # cs) =
     (if c = CHR ''s'' then bnd (tcp_shutdownWrite k fd) (\<lambda>_. client_cmds k fd cs)
      else if c = CHR ''p'' then bnd (sys k (CSleep 10)) (\<lambda>_. client_cmds k fd cs)
      else if c = CHR ''c'' then pure False
      else client_cmds k fd cs)"

text \<open>After sending: the commands, then receiving, then the stream is destroyed.\<close>

definition client_tail :: "kernel \<Rightarrow> int \<Rightarrow> bytes list \<Rightarrow> nat \<Rightarrow> nat \<Rightarrow> outcome io" where
  "client_tail k fd args len nw =
     bnd (if 3 < length args then client_cmds k fd (args ! 3) else pure True) (\<lambda>go_on.
     bnd (if go_on then bnd (receiveAll k fd len) (\<lambda>r. pure (Finished (int nw) (ret r))) else pure ClosedEarly) (\<lambda>out.
     bnd (sock_delete k fd) (\<lambda>_. pure out)))"

text \<open>
  A negative length makes the constructor of the string throw, which nothing catches.
\<close>

definition client_run :: "kernel \<Rightarrow> bytes list \<Rightarrow> int \<Rightarrow> int option \<Rightarrow> outcome io" where
  "client_run k args len stream =
     (case stream of
        None \<Rightarrow> pure Unconnected
      | Some fd \<Rightarrow>
          if len < 0 then halt Abort
          else bnd (sendAll k fd (replicate (nat len) CHR ''S'')) (client_tail k fd args (nat len)))"

definition echo_client :: "kernel \<Rightarrow> (bytes \<Rightarrow> bytes list option) \<Rightarrow> bytes \<Rightarrow> bytes list \<Rightarrow> outcome io" where
  "echo_client k gai junk args =
     (if length args < 3 then pure Usage
      else bnd (sys k (CGetAddrInfo (args ! 1))) (\<lambda>_.
      bnd (lift (resolve gai (args ! 1) 3007 junk)) (\<lambda>addr.
        case addr of
          None \<Rightarrow> pure Unresolved
        | Some a \<Rightarrow> bnd (tcp_connect k junk a) (client_run k args (atoi (args ! 2))))))"

section \<open>What the server keeps\<close>

text \<open>The bytes received and sent on a descriptor since it was last accepted.\<close>

fun echo_in :: "int \<Rightarrow> history \<Rightarrow> bytes" where
  "echo_in fd [] = []"
| "echo_in fd ((c, r) # h) =
     (case c of
        CAccept l \<Rightarrow> if ret r = fd then [] else echo_in fd h
      | CRecv d n p \<Rightarrow> echo_in fd h @ (if d = fd then take (nat (ret r)) (dat r) else [])
      | _ \<Rightarrow> echo_in fd h)"

fun echo_out :: "int \<Rightarrow> history \<Rightarrow> bytes" where
  "echo_out fd [] = []"
| "echo_out fd ((c, r) # h) =
     (case c of
        CAccept l \<Rightarrow> if ret r = fd then [] else echo_out fd h
      | CSend d b \<Rightarrow> echo_out fd h @ (if d = fd then take (nat (ret r)) b else [])
      | _ \<Rightarrow> echo_out fd h)"

definition no_stream :: "conn \<Rightarrow> bool" where
  "no_stream c \<longleftrightarrow> c = NoStream \<or> c = Ended"

definition conn_fd :: "conn \<Rightarrow> int" where
  "conn_fd c = (case c of Receiving fd \<Rightarrow> fd | Sending fd b w \<Rightarrow> fd | _ \<Rightarrow> -1)"

definition conn_ok :: "history \<Rightarrow> conn \<Rightarrow> bool" where
  "conn_ok h c =
     (case c of
        Receiving fd \<Rightarrow> echo_out fd h = echo_in fd h
      | Sending fd buf w \<Rightarrow> w \<le> length buf \<and> (\<exists>pre. echo_in fd h = pre @ buf \<and> echo_out fd h = pre @ take w buf)
      | _ \<Rightarrow> True)"

interpretation cn: slot_table no_stream conn_fd "\<lambda>v c. Receiving v" "\<lambda>c. Ended" "\<lambda>v. True"
  by unfold_locales (auto simp: no_stream_def conn_fd_def)

abbreviation (input) conn_keys :: "conn list \<Rightarrow> int set" where
  "conn_keys \<equiv> keys_of no_stream conn_fd"

definition echo_inv :: "int \<Rightarrow> echo_state \<Rightarrow> history \<Rightarrow> bool" where
  "echo_inv lfd s h \<longleftrightarrow> acc_fd s = lfd \<and> one_each no_stream conn_fd (clients s) \<and> (\<forall>c \<in> set (clients s). conn_ok h c) \<and>
     lfd \<notin> conn_keys (clients s) \<and> open_fds h = insert lfd (conn_keys (clients s)) \<and>
     (\<forall>fd. prefix (echo_out fd h) (echo_in fd h))"

lemma conn_simps [simp]:
  "no_stream NoStream" "no_stream Ended" "\<not> no_stream (Receiving fd)" "\<not> no_stream (Sending fd b w)"
  "conn_fd (Receiving fd) = fd" "conn_fd (Sending fd b w) = fd"
  by (simp_all add: no_stream_def conn_fd_def)

text \<open>Replacing a thread's state by one with the same descriptor, and adding a thread.\<close>

lemma same_fd:
  assumes "i < length cs" and "\<not> no_stream (cs ! i)" and "\<not> no_stream c" and "conn_fd c = conn_fd (cs ! i)"
  shows "keys_of no_stream conn_fd (cs[i := c]) = keys_of no_stream conn_fd cs"
    and "one_each no_stream conn_fd cs \<Longrightarrow> one_each no_stream conn_fd (cs[i := c])"
proof -
  show "keys_of no_stream conn_fd (cs[i := c]) = keys_of no_stream conn_fd cs"
    using assms by (auto simp: keys_of_iff nth_list_update set_eq_iff)
  show "one_each no_stream conn_fd cs \<Longrightarrow> one_each no_stream conn_fd (cs[i := c])"
    using assms unfolding one_each_def by (auto simp: nth_list_update)
qed

lemma add_conn:
  "conn_keys (cs @ [c]) = (if no_stream c then conn_keys cs else insert (conn_fd c) (conn_keys cs))"
  by (auto simp: keys_of_def)

lemma add_one_each:
  "one_each no_stream conn_fd cs \<Longrightarrow> no_stream c \<or> conn_fd c \<notin> conn_keys cs \<Longrightarrow> one_each no_stream conn_fd (cs @ [c])"
  unfolding one_each_def keys_of_iff by (auto simp: nth_append less_Suc_eq)

text \<open>A call that does not concern a descriptor leaves its connection as it is.\<close>

definition touches :: "int \<Rightarrow> call \<times> resp \<Rightarrow> bool" where
  "touches fd e =
     (case fst e of CAccept l \<Rightarrow> ret (snd e) = fd | CRecv d n p \<Rightarrow> d = fd | CSend d b \<Rightarrow> d = fd | _ \<Rightarrow> False)"

lemma untouched_streams: "\<not> touches fd e \<Longrightarrow> echo_in fd (e # h) = echo_in fd h \<and> echo_out fd (e # h) = echo_out fd h"
  by (cases e) (auto simp: touches_def split: call.splits)

lemma conn_ok_frame: "no_stream c \<or> \<not> touches (conn_fd c) e \<Longrightarrow> conn_ok (e # h) c = conn_ok h c"
  using untouched_streams[of "conn_fd c" e h] by (cases c) (simp_all add: conn_ok_def)

lemma inv_fds:
  assumes "echo_inv lfd s h" and "i < length (clients s)" and "\<not> no_stream (clients s ! i)"
  shows "conn_fd (clients s ! i) \<in> open_fds h" and "conn_fd (clients s ! i) \<noteq> lfd" and "conn_ok h (clients s ! i)"
    and "j < length (clients s) \<Longrightarrow> j \<noteq> i \<Longrightarrow> no_stream (clients s ! j) \<or> conn_fd (clients s ! j) \<noteq> conn_fd (clients s ! i)"
proof -
  have "conn_fd (clients s ! i) \<in> conn_keys (clients s)" using assms(2,3) by (auto simp: keys_of_iff)
  with assms(1) show "conn_fd (clients s ! i) \<in> open_fds h" "conn_fd (clients s ! i) \<noteq> lfd"
    by (auto simp: echo_inv_def)
  show "conn_ok h (clients s ! i)" using assms(1,2) by (auto simp: echo_inv_def)
  show "j < length (clients s) \<Longrightarrow> j \<noteq> i \<Longrightarrow> no_stream (clients s ! j) \<or> conn_fd (clients s ! j) \<noteq> conn_fd (clients s ! i)"
    using assms by (auto simp: echo_inv_def one_each_def)
qed

text \<open>A call on the descriptor of thread \<open>i\<close> that closes nothing.\<close>

lemma inv_work:
  assumes inv: "echo_inv lfd s h" and i: "i < length (clients s)" "\<not> no_stream (clients s ! i)"
    and c: "\<not> no_stream c" "conn_fd c = conn_fd (clients s ! i)"
    and e: "open_fds (e # h) = open_fds h" "\<And>d. d \<noteq> conn_fd c \<Longrightarrow> \<not> touches d e"
    and ok: "conn_ok (e # h) c" "prefix (echo_out (conn_fd c) (e # h)) (echo_in (conn_fd c) (e # h))"
  shows "echo_inv lfd (s\<lparr>clients := (clients s)[i := c]\<rparr>) (e # h)"
proof -
  have "conn_ok (e # h) ((clients s)[i := c] ! j)" if "j < length (clients s)" for j
  proof (cases "j = i")
    case False
    have "conn_ok h (clients s ! j)" using inv that by (auto simp: echo_inv_def)
    moreover have "no_stream (clients s ! j) \<or> \<not> touches (conn_fd (clients s ! j)) e"
      using inv_fds(4)[OF inv i that False] c(2) e(2) by metis
    ultimately show ?thesis using False conn_ok_frame by simp
  qed (use that ok in simp)
  then have "\<forall>c' \<in> set ((clients s)[i := c]). conn_ok (e # h) c'"
    by (metis in_set_conv_nth length_list_update)
  moreover have "prefix (echo_out fd (e # h)) (echo_in fd (e # h))" for fd
    using ok(2) untouched_streams[OF e(2)] inv by (cases "fd = conn_fd c") (auto simp: echo_inv_def)
  ultimately show ?thesis
    using inv same_fd[OF i c] e(1) by (simp add: echo_inv_def)
qed

text \<open>The end of a thread: it closes its descriptor.\<close>

lemma inv_end:
  assumes inv: "echo_inv lfd s h" and i: "i < length (clients s)" "\<not> no_stream (clients s ! i)"
  shows "echo_inv lfd (s\<lparr>clients := (clients s)[i := Ended]\<rparr>) ((CClose (conn_fd (clients s ! i)), r) # h)"
proof -
  let ?e = "(CClose (conn_fd (clients s ! i)), r)"
  have "\<not> touches d ?e" for d by (simp add: touches_def)
  then have "conn_ok (?e # h) c = conn_ok h c" "echo_in d (?e # h) = echo_in d h" "echo_out d (?e # h) = echo_out d h" for c d
    using conn_ok_frame by auto
  moreover have "\<forall>c \<in> set ((clients s)[i := Ended]). conn_ok h c"
    using inv set_update_subset_insert[of "clients s" i Ended] by (auto simp: echo_inv_def conn_ok_def)
  ultimately show ?thesis
    using inv i inv_fds(2)[OF inv i] cn.clear_keys[of "clients s" i] cn.clear_one_each[of "clients s" i]
    by (auto simp: echo_inv_def)
qed

lemma inv_same:
  assumes inv: "echo_inv lfd s h" and i: "i < length (clients s)" "\<not> no_stream (clients s ! i)"
    and c: "\<not> no_stream c" "conn_fd c = conn_fd (clients s ! i)" "conn_ok h c"
  shows "echo_inv lfd (s\<lparr>clients := (clients s)[i := c]\<rparr>) h"
  using inv same_fd[OF i c(1,2)] c(3) set_update_subset_insert[of "clients s" i c] by (auto simp: echo_inv_def)

lemma inv_echo_end:
  assumes "echo_inv lfd s h" and "i < length (clients s)" and "\<not> no_stream (clients s ! i)"
    and "conn_fd (clients s ! i) = fd"
  shows "wp (echo_end k fd) (\<lambda>c. echo_inv lfd (s\<lparr>clients := (clients s)[i := c]\<rparr>)) any_stop h"
  using inv_end[OF assms(1-3)] assms(4) open_fds_nonneg[OF inv_fds(1)[OF assms(1-3)]]
  by (simp add: echo_end_def sock_defs wp_simps)

lemma same_clients: "s\<lparr>clients := (clients s)[i := clients s ! i]\<rparr> = s"
  by simp

lemma inv_receiving:
  assumes inv: "echo_inv lfd s h" and i: "i < length (clients s)" and c: "clients s ! i = Receiving fd"
  shows "wp (echo_work k (Receiving fd)) (\<lambda>c. echo_inv lfd (s\<lparr>clients := (clients s)[i := c]\<rparr>)) any_stop h"
proof -
  let ?r = "k h (CRecv fd 4096 False)"
  let ?e = "(CRecv fd 4096 False, ?r)" and ?b = "take (nat (ret ?r)) (dat ?r)"
  have ok: "echo_out fd h = echo_in fd h" "prefix (echo_out fd h) (echo_in fd h)"
    using inv_fds(3)[OF inv i] c inv by (simp_all add: conn_ok_def echo_inv_def)
  have e: "\<And>d. d \<noteq> fd \<Longrightarrow> \<not> touches d ?e" by (simp add: touches_def)
  have more: "echo_inv lfd (s\<lparr>clients := (clients s)[i := Sending fd ?b 0]\<rparr>) (?e # h)"
    by (rule inv_work[OF inv i]) (use c ok e in \<open>auto simp: conn_ok_def\<close>)
  have "echo_inv lfd (s\<lparr>clients := (clients s)[i := Receiving fd]\<rparr>) (?e # h)" if "\<not> 0 < ret ?r"
    by (rule inv_work[OF inv i]) (use c ok e that in \<open>auto simp: conn_ok_def\<close>)
  then have "echo_inv lfd s (?e # h)" if "\<not> 0 < ret ?r"
    using that same_clients[of s i] c by simp
  with more show ?thesis
    using i c by (auto simp: echo_work_def sock_defs wp_simps intro!: inv_echo_end)
qed

lemma inv_sending:
  assumes k: "send_bounded k" and inv: "echo_inv lfd s h" and i: "i < length (clients s)"
    and c: "clients s ! i = Sending fd buf w"
  shows "wp (echo_work k (Sending fd buf w)) (\<lambda>c. echo_inv lfd (s\<lparr>clients := (clients s)[i := c]\<rparr>)) any_stop h"
proof -
  let ?r = "k h (CSend fd (drop w buf))"
  let ?e = "(CSend fd (drop w buf), ?r)"
  obtain pre where ok: "w \<le> length buf" "echo_in fd h = pre @ buf" "echo_out fd h = pre @ take w buf"
    using inv_fds(3)[OF inv i] c by (auto simp: conn_ok_def)
  have e: "\<And>d. d \<noteq> fd \<Longrightarrow> \<not> touches d ?e" by (simp add: touches_def)
  have b: "ret ?r \<le> int (length buf - w)" using k unfolding send_bounded_def by (metis length_drop)
  have step: "take w buf @ take n (drop w buf) = take (w + n) buf" for n by (simp add: take_add)
  have "echo_inv lfd (s\<lparr>clients := (clients s)[i := Sending fd buf (w + nat (ret ?r))]\<rparr>) (?e # h)"
    by (rule inv_work[OF inv i]) (use c ok e b in \<open>auto simp: conn_ok_def step take_is_prefix\<close>)
  moreover have "echo_inv lfd (s\<lparr>clients := (clients s)[i := Sending fd buf w]\<rparr>) (?e # h)" if "\<not> 0 < ret ?r"
    by (rule inv_work[OF inv i]) (use c ok e that in \<open>auto simp: conn_ok_def take_is_prefix\<close>)
  then have "echo_inv lfd s (?e # h)" if "\<not> 0 < ret ?r"
    using that same_clients[of s i] c by simp
  moreover have "echo_inv lfd (s\<lparr>clients := (clients s)[i := Receiving fd]\<rparr>) h" if "length buf \<le> w"
    by (rule inv_same[OF inv i]) (use c ok that in \<open>auto simp: conn_ok_def\<close>)
  ultimately show ?thesis
    using i c by (auto simp: echo_work_def sock_defs wp_simps not_less intro!: inv_echo_end)
qed

lemma inv_accept:
  assumes k: "fresh_sockets k" and inv: "echo_inv lfd s h"
  shows "wp (echo_accept k s) (echo_inv lfd) any_stop h"
proof -
  let ?r = "k h (CAccept lfd)"
  let ?e = "(CAccept lfd, ?r)"
  have new: "ret ?r \<notin> open_fds h" using k by (simp add: fresh_sockets_def)
  then have key: "ret ?r \<notin> conn_keys (clients s)" "ret ?r \<noteq> lfd" using inv by (auto simp: echo_inv_def)
  have frame: "conn_ok (?e # h) c" if "c \<in> set (clients s)" for c
  proof -
    have "no_stream c \<or> \<not> touches (conn_fd c) ?e"
      using key(1) that by (auto simp: keys_of_def touches_def)
    with conn_ok_frame inv that show ?thesis by (auto simp: echo_inv_def)
  qed
  have none: "echo_inv lfd (s\<lparr>clients := clients s @ [NoStream]\<rparr>) (?e # h)" if "ret ?r < 0"
    using inv frame that by (auto simp: echo_inv_def add_conn add_one_each conn_ok_def)
  have some: "echo_inv lfd (s\<lparr>clients := clients s @ [Receiving (ret ?r)]\<rparr>) (?e # h)" if "0 \<le> ret ?r"
    using inv frame that key by (auto simp: echo_inv_def add_conn add_one_each conn_ok_def)
  have opt: "echo_inv lfd s' ((CSetOpt fd n v, r) # h')" if "echo_inv lfd s' h'" for s' fd n v r h'
    using that conn_ok_frame[of _ "(CSetOpt fd n v, r)" h'] by (auto simp: echo_inv_def touches_def)
  show ?thesis
    using inv none some opt[OF some]
    by (auto simp: echo_accept_def acceptor_accept_def sock_defs wp_simps echo_inv_def[of lfd s] not_le)
qed

lemma inv_step:
  assumes "send_bounded k" and "fresh_sockets k" and inv: "echo_inv lfd s h"
  shows "wp (echo_step k t s) (echo_inv lfd) any_stop h"
proof (cases t)
  case AcceptTurn
  then show ?thesis using inv_accept[OF assms(2) inv] by (simp add: echo_step_def)
next
  case (WorkTurn i)
  show ?thesis
  proof (cases "i < length (clients s)")
    case True
    have "wp (echo_work k (clients s ! i)) (\<lambda>c. echo_inv lfd (s\<lparr>clients := (clients s)[i := c]\<rparr>)) any_stop h"
    proof (cases "clients s ! i")
      case (Receiving fd)
      then show ?thesis using inv_receiving[OF inv True] by simp
    next
      case (Sending fd buf w)
      then show ?thesis using inv_sending[OF assms(1) inv True] by simp
    qed (simp_all add: echo_work_def wp_simps)
    with WorkTurn True show ?thesis by (simp add: echo_step_def wp_simps)
  qed (simp add: WorkTurn echo_step_def wp_simps)
qed

lemma inv_server:
  assumes "send_bounded k" and "fresh_sockets k"
  shows "wp (echo_server k args junk sched) (\<lambda>s h. \<exists>lfd. echo_inv lfd s h) any_stop []"
proof -
  have loop: "wp (for_io sched (echo_step k) s) (\<lambda>s h. \<exists>lfd. echo_inv lfd s h) any_stop h" if "echo_inv lfd s h" for lfd s h
    by (rule wp_mono[OF wp_for_io[where I = "echo_inv lfd"]]) (auto intro: inv_step[OF assms] that)
  show ?thesis
    by (auto simp: echo_server_def acceptor_new_def sock_defs wp_simps Let_def intro!: loop)
      (auto simp: echo_inv_def keys_of_def one_each_def)
qed

section \<open>Properties\<close>

text \<open>
  C8. The threaded echo server of ttcp, for every interleaving of its threads: on every
  descriptor the bytes it has sent since it last accepted it are a prefix of the bytes it has
  received, all of them when the connection's thread is back at its receive; no two threads
  share a descriptor, and the open descriptors are the listening socket and those of the
  threads that have not ended: none leaks and none is closed twice.
\<close>
theorem echo_server_echoes:
  assumes "send_bounded k" and "fresh_sockets k" and "echo_server k args junk sched [] = (Inr s, h)"
  shows "(\<forall>fd. prefix (echo_out fd h) (echo_in fd h)) \<and>
    (\<forall>fd. Receiving fd \<in> set (clients s) \<longrightarrow> echo_out fd h = echo_in fd h) \<and>
    one_each no_stream conn_fd (clients s) \<and>
    open_fds h = insert (acc_fd s) (keys_of no_stream conn_fd (clients s))"
proof -
  obtain lfd where inv: "echo_inv lfd s h"
    using wp_InrD[OF inv_server[OF assms(1,2)] assms(3)] by blast
  then show ?thesis by (auto simp: echo_inv_def conn_ok_def)
qed

text \<open>One client: four bytes are received and sent back in two sends.\<close>

definition one_echo :: "echo_turn list" where
  "one_echo = [AcceptTurn, WorkTurn 0, WorkTurn 0, WorkTurn 0, WorkTurn 0]"

theorem echo_server_echoes_witness:
  "\<exists>s h. echo_server three_a_time [''echo'', ''-D''] (replicate 28 NUL) one_echo [] = (Inr s, h) \<and>
    clients s = [Receiving 7] \<and> echo_in 7 h = ''abcd'' \<and> echo_out 7 h = ''abcd'' \<and> open_fds h = {3, 7}"
proof -
  obtain s h where r: "echo_server three_a_time [''echo'', ''-D''] (replicate 28 NUL) one_echo [] = (Inr s, h)"
    "clients s = [Receiving 7]" "echo_in 7 h = ''abcd''" "acc_fd s = 3"
    using demo_addr
    by (simp add: one_echo_def echo_server_def acceptor_new_def acceptor_accept_def echo_step_def echo_accept_def
        echo_work_def sock_defs io_simps three_a_time_def numeral_eq_Suc)
  from echo_server_echoes[OF three_a_time_ok three_a_time_fresh r(1)] r show ?thesis
    by (auto simp: keys_of_def)
qed

end
