(* ===== verification/Ttcp_Claims.thy ===== *)
theory Ttcp_Claims
  imports Ttcp_Echo
begin

text \<open>
  The echo client against the echo server: what happens when both of them wait for the other
  to receive, and what a failed accept does to the server.
\<close>

section \<open>The client's loop, call by call\<close>

text \<open>The client inside \<^verbatim>\<open>sendAll\<close>, and after it with the bytes it has written.\<close>

datatype cli = CliSending nat | CliSent nat

definition cli_step :: "kernel \<Rightarrow> int \<Rightarrow> bytes \<Rightarrow> cli \<Rightarrow> cli io" where
  "cli_step k fd buf c =
     (case c of
        CliSending w \<Rightarrow>
          if w < length buf
          then bnd (send_step k fd buf w) (\<lambda>nw. pure (if 0 < nw then CliSending (w + nat nw) else CliSent w))
          else pure (CliSent w)
      | CliSent w \<Rightarrow> halt Blocked)"

fun cli_run :: "nat \<Rightarrow> kernel \<Rightarrow> int \<Rightarrow> bytes \<Rightarrow> cli \<Rightarrow> nat io" where
  "cli_run n k fd buf (CliSent w) = pure w"
| "cli_run 0 k fd buf (CliSending w) = halt Fuel"
| "cli_run (Suc n) k fd buf (CliSending w) = bnd (cli_step k fd buf (CliSending w)) (cli_run n k fd buf)"

text \<open>
  The steps of the client are those of sendAll: run to the end they give its result and its
  history.
\<close>
theorem cli_run_is_sendAll:
  "cli_run (Suc (length buf)) k fd buf (CliSending 0) = sendAll k fd buf"
proof -
  have "cli_run n k fd buf (CliSending w) = send_from n k fd buf w" for n w
  proof (induction n arbitrary: w)
    case (Suc n)
    show ?case by (simp add: cli_step_def fun_eq_iff io_simps Suc split: prod.split sum.split)
  qed simp
  then show ?thesis by (simp add: sendAll_def)
qed

section \<open>Client and server\<close>

text \<open>
  The client and one thread of the server take turns on the two ends of a connection,
  \<open>cfd\<close> and \<open>sfd\<close>.
\<close>

datatype duet_turn = CliTurn | SrvTurn

definition duet_step :: "kernel \<Rightarrow> int \<Rightarrow> bytes \<Rightarrow> duet_turn \<Rightarrow> cli \<times> conn \<Rightarrow> (cli \<times> conn) io" where
  "duet_step k cfd buf t s =
     (case t of
        CliTurn \<Rightarrow> bnd (cli_step k cfd buf (fst s)) (\<lambda>c. pure (c, snd s))
      | SrvTurn \<Rightarrow> bnd (echo_work k (snd s)) (\<lambda>c. pure (fst s, c)))"

fun sent_len :: "int \<Rightarrow> history \<Rightarrow> int" where
  "sent_len fd [] = 0"
| "sent_len fd ((c, r) # h) =
     sent_len fd h + (case c of CSend d b \<Rightarrow> if d = fd \<and> 0 < ret r then ret r else 0 | _ \<Rightarrow> 0)"

fun recv_len :: "int \<Rightarrow> history \<Rightarrow> int" where
  "recv_len fd [] = 0"
| "recv_len fd ((c, r) # h) =
     recv_len fd h + (case c of CRecv d n p \<Rightarrow> if d = fd \<and> 0 < ret r then ret r else 0 | _ \<Rightarrow> 0)"

text \<open>
  The flow control of a connection: the bytes sent into an end and not yet received from the
  other fit into the buffers between them, \<open>A\<close> and \<open>B\<close> bytes; a receive gives as
  many bytes as it says, and no more than asked for.
\<close>

definition flow_control :: "kernel \<Rightarrow> int \<Rightarrow> int \<Rightarrow> int \<Rightarrow> int \<Rightarrow> bool" where
  "flow_control k cfd sfd A B \<longleftrightarrow>
     (\<forall>h b. 0 < ret (k h (CSend cfd b)) \<longrightarrow> sent_len cfd h + ret (k h (CSend cfd b)) \<le> recv_len sfd h + A) \<and>
     (\<forall>h b. 0 < ret (k h (CSend sfd b)) \<longrightarrow> sent_len sfd h + ret (k h (CSend sfd b)) \<le> recv_len cfd h + B) \<and>
     (\<forall>h n p. ret (k h (CRecv sfd n p)) \<le> int n \<and>
        (0 \<le> ret (k h (CRecv sfd n p)) \<longrightarrow> int (length (dat (k h (CRecv sfd n p)))) = ret (k h (CRecv sfd n p))))"

definition written :: "cli \<Rightarrow> nat" where
  "written c = (case c of CliSending w \<Rightarrow> w | CliSent w \<Rightarrow> w)"

definition duet_inv :: "int \<Rightarrow> int \<Rightarrow> int \<Rightarrow> int \<Rightarrow> cli \<times> conn \<Rightarrow> history \<Rightarrow> bool" where
  "duet_inv cfd sfd A B s h \<longleftrightarrow>
     int (written (fst s)) = sent_len cfd h \<and> sent_len cfd h \<le> recv_len sfd h + A \<and> recv_len cfd h = 0 \<and>
     sent_len sfd h \<le> B \<and>
     (case snd s of
        Receiving fd \<Rightarrow> fd = sfd \<and> recv_len sfd h = sent_len sfd h
      | Sending fd buf w \<Rightarrow> fd = sfd \<and> w \<le> length buf \<and> length buf \<le> 4096 \<and>
          recv_len sfd h = sent_len sfd h + int (length buf - w)
      | _ \<Rightarrow> recv_len sfd h \<le> sent_len sfd h + 4096)"

lemma duet_cli:
  assumes k: "flow_control k cfd sfd A B" "send_bounded k" and ne: "cfd \<noteq> sfd" and inv: "duet_inv cfd sfd A B s h"
  shows "wp (duet_step k cfd buf CliTurn s) (duet_inv cfd sfd A B) any_stop h"
proof (cases "fst s")
  case (CliSending w)
  have "0 < ret (k h (CSend cfd (drop w buf))) \<Longrightarrow>
      sent_len cfd h + ret (k h (CSend cfd (drop w buf))) \<le> recv_len sfd h + A"
    using k(1) unfolding flow_control_def by blast
  then show ?thesis
    using CliSending inv ne
    by (cases "snd s") (auto simp: duet_step_def cli_step_def sock_defs wp_simps duet_inv_def written_def)
qed (simp add: duet_step_def cli_step_def wp_simps)

lemma duet_srv:
  assumes k: "flow_control k cfd sfd A B" "send_bounded k" and ne: "cfd \<noteq> sfd" and inv: "duet_inv cfd sfd A B s h"
  shows "wp (duet_step k cfd buf SrvTurn s) (duet_inv cfd sfd A B) any_stop h"
proof (cases "snd s")
  case (Receiving fd)
  then have fd: "fd = sfd" using inv by (simp add: duet_inv_def)
  have "ret (k h (CRecv sfd 4096 False)) \<le> 4096 \<and>
      (0 \<le> ret (k h (CRecv sfd 4096 False)) \<longrightarrow>
         int (length (dat (k h (CRecv sfd 4096 False)))) = ret (k h (CRecv sfd 4096 False)))"
    using k(1) unfolding flow_control_def by (metis of_nat_numeral)
  then show ?thesis
    using Receiving inv ne fd
    by (auto simp: duet_step_def echo_work_def echo_end_def sock_defs wp_simps duet_inv_def)
next
  case (Sending fd bf w)
  then have fd: "fd = sfd" using inv by (simp add: duet_inv_def)
  have "0 < ret (k h (CSend sfd (drop w bf))) \<Longrightarrow>
      sent_len sfd h + ret (k h (CSend sfd (drop w bf))) \<le> recv_len cfd h + B"
    using k(1) unfolding flow_control_def by blast
  moreover have "ret (k h (CSend sfd (drop w bf))) \<le> int (length bf - w)"
    using k(2) unfolding send_bounded_def by (metis length_drop)
  ultimately show ?thesis
    using Sending inv ne fd
    by (auto simp: duet_step_def echo_work_def echo_end_def sock_defs wp_simps duet_inv_def)
qed (simp_all add: duet_step_def echo_work_def wp_simps)

text \<open>
  C24. The client of ttcp sends its whole message before it receives anything, the server sends
  back what it receives before it receives more: a message longer than the buffers of both
  directions and the server's own buffer is never sent completely, however the two are
  scheduled. The client then waits in its send for the server, which waits in its send for the
  client.
\<close>
theorem long_message_deadlocks:
  assumes "flow_control k cfd sfd A B" and "send_bounded k" and "cfd \<noteq> sfd" and "0 \<le> A" "0 \<le> B"
    and "A + B + 4096 < int (length buf)"
    and "for_io sched (duet_step k cfd buf) (CliSending 0, Receiving sfd) [] = (Inr (c, s), h)"
  shows "written c < length buf \<and> int (written c) \<le> A + B + 4096"
proof -
  have step: "wp (duet_step k cfd buf t s) (duet_inv cfd sfd A B) any_stop h" if "duet_inv cfd sfd A B s h" for t s h
    using duet_cli[OF assms(1-3) that] duet_srv[OF assms(1-3) that] by (cases t) simp_all
  have "duet_inv cfd sfd A B (CliSending 0, Receiving sfd) []"
    using assms(4,5) by (simp add: duet_inv_def written_def)
  then have "wp (for_io sched (duet_step k cfd buf) (CliSending 0, Receiving sfd)) (duet_inv cfd sfd A B) any_stop []"
    by (intro wp_for_io step)
  from wp_InrD[OF this assms(7)] have "int (written c) \<le> A + B + 4096"
    by (cases s) (auto simp: duet_inv_def)
  with assms(6) show ?thesis by simp
qed

text \<open>A connection between 4 and 5 with one byte of buffer in each direction.\<close>

definition narrow :: kernel where
  "narrow h c =
     (case c of
        CSend fd b \<Rightarrow> mk_ret (max 0 (min (int (length b)) (recv_len (9 - fd) h + 1 - sent_len fd h)))
      | CRecv fd n p \<Rightarrow>
          let m = max 0 (min (int n) (sent_len (9 - fd) h - recv_len fd h))
          in mk_ret m\<lparr>dat := replicate (nat m) CHR ''S''\<rparr>
      | _ \<Rightarrow> mk_ret 0)"

lemma narrow_ok: "flow_control narrow 4 5 1 1" "send_bounded narrow"
  by (auto simp: flow_control_def send_bounded_def narrow_def Let_def)

theorem long_message_deadlocks_witness:
  "\<exists>c s h. for_io [CliTurn, SrvTurn, SrvTurn, SrvTurn, CliTurn] (duet_step narrow 4 (replicate 5000 CHR ''S''))
      (CliSending 0, Receiving 5) [] = (Inr (c, s), h) \<and> written c = 2 \<and> int (written c) \<le> 1 + 1 + 4096"
proof -
  obtain c s h where r: "for_io [CliTurn, SrvTurn, SrvTurn, SrvTurn, CliTurn] (duet_step narrow 4 (replicate 5000 CHR ''S''))
      (CliSending 0, Receiving 5) [] = (Inr (c, s), h)" "written c = 2"
    by (simp add: duet_step_def cli_step_def echo_work_def sock_defs io_simps narrow_def Let_def written_def)
  from long_message_deadlocks[OF narrow_ok _ _ _ _ r(1)] r show ?thesis by auto
qed

section \<open>Short messages\<close>

text \<open>A send with something to send is accepted, at least in part, while there is room in the direction's buffer.\<close>

definition live_sends :: "kernel \<Rightarrow> int \<Rightarrow> int \<Rightarrow> int \<Rightarrow> bool" where
  "live_sends k cfd sfd A \<longleftrightarrow>
     (\<forall>h b. b \<noteq> [] \<longrightarrow> sent_len cfd h < recv_len sfd h + A \<longrightarrow> 0 < ret (k h (CSend cfd b)))"

lemma recv_len_nonneg [simp]: "0 \<le> recv_len fd h"
  by (induction fd h rule: recv_len.induct) (auto split: call.split)

text \<open>The client after \<open>n\<close> of its turns; the server is at the other end.\<close>

definition short_inv :: "int \<Rightarrow> int \<Rightarrow> bytes \<Rightarrow> nat \<Rightarrow> cli \<times> conn \<Rightarrow> history \<Rightarrow> bool" where
  "short_inv cfd sfd buf n s h \<longleftrightarrow>
     (case fst s of CliSending w \<Rightarrow> n \<le> w \<and> w \<le> length buf | CliSent w \<Rightarrow> w = length buf) \<and>
     int (written (fst s)) = sent_len cfd h \<and> sent_on cfd h = take (written (fst s)) buf \<and>
     (case snd s of Receiving fd \<Rightarrow> fd = sfd | Sending fd b w \<Rightarrow> fd = sfd | _ \<Rightarrow> True)"

lemma short_cli:
  assumes k: "live_sends k cfd sfd A" "send_bounded k" and ne: "cfd \<noteq> sfd" and len: "int (length buf) \<le> A"
    and inv: "short_inv cfd sfd buf n s h"
  shows "wp (duet_step k cfd buf CliTurn s) (short_inv cfd sfd buf (Suc n)) any_stop h"
proof (cases "fst s")
  case (CliSending w)
  let ?r = "k h (CSend cfd (drop w buf))"
  show ?thesis
  proof (cases "w < length buf")
    case True
    have "int w = sent_len cfd h" using inv CliSending by (simp add: short_inv_def written_def)
    then have "sent_len cfd h < recv_len sfd h + A" using True len recv_len_nonneg[of sfd h] by linarith
    then have "0 < ret ?r" using k(1) True by (simp add: live_sends_def)
    moreover have "ret ?r \<le> int (length buf - w)" using k(2) unfolding send_bounded_def by (metis length_drop)
    ultimately show ?thesis
      using CliSending inv True
      by (auto simp: duet_step_def cli_step_def sock_defs wp_simps short_inv_def written_def take_add)
  qed (use CliSending inv in \<open>auto simp: duet_step_def cli_step_def wp_simps short_inv_def written_def\<close>)
qed (simp add: duet_step_def cli_step_def wp_simps)

lemma short_srv:
  assumes "cfd \<noteq> sfd" and "short_inv cfd sfd buf n s h"
  shows "wp (duet_step k cfd buf SrvTurn s) (short_inv cfd sfd buf n) any_stop h"
  using assms
  by (cases "snd s") (auto simp: duet_step_def echo_work_def echo_end_def sock_defs wp_simps short_inv_def)

text \<open>
  A message that fits the buffer towards the server is always sent: whatever the server does in between,
  no turn of the client is wasted (after n turns it has sent n bytes or everything), what it has sent is the
  beginning of the message, and when its sendAll ends the whole message is sent.
\<close>
theorem short_message_is_sent:
  assumes "live_sends k cfd sfd A" and "send_bounded k" and "cfd \<noteq> sfd" and "int (length buf) \<le> A"
    and "for_io sched (duet_step k cfd buf) (CliSending 0, Receiving sfd) [] = (Inr (c, s), h)"
  shows "(case c of CliSending w \<Rightarrow> length (filter (\<lambda>t. t = CliTurn) sched) \<le> w \<and> w \<le> length buf | CliSent w \<Rightarrow> w = length buf) \<and>
    sent_on cfd h = take (written c) buf"
proof -
  have run: "wp (for_io sched (duet_step k cfd buf) s) (short_inv cfd sfd buf (n + length (filter (\<lambda>t. t = CliTurn) sched))) any_stop h"
    if "short_inv cfd sfd buf n s h" for n s h
    using that
  proof (induction sched arbitrary: n s h)
    case (Cons t sched)
    show ?case
    proof (cases t)
      case CliTurn
      show ?thesis
        unfolding CliTurn for_io.simps wp_bnd
        by (rule wp_mono[OF short_cli[OF assms(1-4) Cons.prems]]) (use Cons.IH[of "Suc n"] in simp_all)
    next
      case SrvTurn
      show ?thesis
        unfolding SrvTurn for_io.simps wp_bnd
        by (rule wp_mono[OF short_srv[OF assms(3) Cons.prems]]) (use Cons.IH[of n] in simp_all)
    qed
  qed (simp add: wp_simps)
  have "short_inv cfd sfd buf 0 (CliSending 0, Receiving sfd) []" by (simp add: short_inv_def written_def)
  from wp_InrD[OF run[OF this] assms(5)] show ?thesis by (simp add: short_inv_def)
qed

lemma narrow_live: "live_sends narrow 4 5 1"
  by (auto simp: live_sends_def narrow_def)

theorem short_message_is_sent_witness:
  "\<exists>s h. for_io [CliTurn, SrvTurn, CliTurn] (duet_step narrow 4 ''S'') (CliSending 0, Receiving 5) [] = (Inr (CliSent 1, s), h) \<and>
    sent_on 4 h = ''S''"
proof -
  obtain s h where r: "for_io [CliTurn, SrvTurn, CliTurn] (duet_step narrow 4 ''S'') (CliSending 0, Receiving 5) [] =
      (Inr (CliSent 1, s), h)"
    by (simp add: duet_step_def cli_step_def echo_work_def sock_defs io_simps narrow_def Let_def)
  from short_message_is_sent[OF narrow_live narrow_ok(2) _ _ r] r show ?thesis by (simp add: written_def)
qed

section \<open>A failed accept\<close>

text \<open>
  When accept fails, for instance because no descriptors are left, the echo server uses a
  null pointer: in main when the option -D is given, else in the thread it starts for the
  stream it does not have.
\<close>
theorem failed_accept_null:
  assumes "ret (k h (CAccept (acc_fd s))) < 0"
  shows "fst (bnd (echo_accept k s) (echo_step k (WorkTurn (length (clients s)))) h) = Inl (Undef NullDeref)"
  using assms by (auto simp: echo_accept_def acceptor_accept_def echo_step_def echo_work_def io_simps)

theorem failed_accept_null_witness:
  "fst (bnd (echo_accept (\<lambda>_ _. mk_ret (-1)) \<lparr>acc_fd = 3, nodelay = False, clients = []\<rparr>)
     (echo_step (\<lambda>_ _. mk_ret (-1)) (WorkTurn 0)) []) = Inl (Undef NullDeref)"
  using failed_accept_null[of "\<lambda>_ _. mk_ret (-1)" "[]" "\<lparr>acc_fd = 3, nodelay = False, clients = []\<rparr>"] by simp

section \<open>The client's run\<close>

lemma client_cmds_open: "wp (client_cmds k fd cs) (\<lambda>_ h'. open_fds h' = open_fds h) any_stop h"
proof (induction cs arbitrary: h)
  case (Cons c cs)
  have "wp (client_cmds k fd cs) (\<lambda>_ h'. open_fds h' = open_fds h) any_stop ((e, r) # h)"
    if "open_fds ((e, r) # h) = open_fds h" for e r
    using Cons[of "(e, r) # h"] that by simp
  then show ?case using Cons by (auto simp: sock_defs wp_simps)
qed (simp add: wp_simps)

definition client_ok :: "history \<Rightarrow> int \<Rightarrow> outcome \<Rightarrow> history \<Rightarrow> bool" where
  "client_ok h len out h' \<longleftrightarrow> open_fds h' = open_fds h \<and> (\<forall>nw nr. out = Finished nw nr \<longrightarrow> 0 \<le> nw \<and> nw \<le> len)"

lemma client_tail_ok:
  assumes "open_fds h1 = insert fd (open_fds h)" and "fd \<notin> open_fds h" and "int nw \<le> len"
  shows "wp (client_tail k fd args n nw) (client_ok h len) any_stop h1"
proof -
  have nn: "0 \<le> fd" using open_fds_nonneg[of fd h1] assms(1) by simp
  have cmds: "wp (if 3 < length args then client_cmds k fd (args ! 3) else pure True)
      (\<lambda>_ h'. open_fds h' = insert fd (open_fds h)) any_stop h1"
    using client_cmds_open[of k fd "args ! 3" h1] assms(1) by (simp add: wp_simps)
  show ?thesis
    unfolding client_tail_def
    by (subst wp_bnd, rule wp_mono[OF cmds])
      (use assms nn in \<open>auto simp: sock_defs wp_simps client_ok_def\<close>)
qed

lemma client_run_ok:
  assumes "send_bounded k"
    and "open_fds h1 = (case stream of None \<Rightarrow> open_fds h | Some fd \<Rightarrow> insert fd (open_fds h))"
    and "\<forall>fd. stream = Some fd \<longrightarrow> fd \<notin> open_fds h"
  shows "wp (client_run k args len stream) (client_ok h len) any_stop h1"
proof (cases stream)
  case (Some fd)
  have "wp (sendAll k fd (replicate (nat len) CHR ''S''))
      (\<lambda>nw h2. open_fds h2 = open_fds h1 \<and> int nw \<le> len) any_stop h1" if "0 \<le> len"
    unfolding sendAll_def
    by (rule wp_mono[OF wp_conj[OF send_from_open send_from_spec[OF assms(1)]]]) (use that in auto)
  then show ?thesis
    using Some assms(2,3)
    by (auto simp: client_run_def wp_if wp_halt wp_bnd elim!: wp_mono intro!: client_tail_ok)
qed (use assms in \<open>simp add: client_run_def wp_simps client_ok_def\<close>)

lemma client_connects:
  assumes "fresh_sockets k" and "send_bounded k" and "open_fds h1 = open_fds h"
  shows "wp (bnd (tcp_connect k junk a) (client_run k args len)) (client_ok h len) any_stop h1"
proof -
  have run: "wp (client_run k args len res) (client_ok h len) any_stop h'"
    if "open_fds h' = (case res of None \<Rightarrow> open_fds h1 | Some fd \<Rightarrow> insert fd (open_fds h1)) \<and>
      (\<forall>fd. res = Some fd \<longrightarrow> fd \<notin> open_fds h1 \<and> P fd h')" for res P h'
  proof (rule client_run_ok[OF assms(2)])
    show "open_fds h' = (case res of None \<Rightarrow> open_fds h | Some fd \<Rightarrow> insert fd (open_fds h))"
      using that unfolding assms(3) by (rule conjunct1)
    show "\<forall>fd. res = Some fd \<longrightarrow> fd \<notin> open_fds h"
      using that unfolding assms(3) by blast
  qed
  show ?thesis
    unfolding tcp_connect_def by (subst wp_bnd, rule wp_mono[OF connect_wp[OF assms(1)]], erule run, rule TrueI)
qed

text \<open>
  C28. However the echo client ends (usage, unknown host, no connection, told to close, or
  finished), every socket it opened is closed again, and it never reports to have sent more
  than the length it was given.
\<close>
theorem echo_client_closes:
  assumes "fresh_sockets k" and "send_bounded k" and "echo_client k gai junk args h = (Inr out, h')"
  shows "open_fds h' = open_fds h \<and> (\<forall>nw nr. out = Finished nw nr \<longrightarrow> 0 \<le> nw \<and> nw \<le> atoi (args ! 2))"
proof -
  have "wp (echo_client k gai junk args) (client_ok h (atoi (args ! 2))) any_stop h"
    using client_connects[OF assms(1,2)]
    by (cases "resolve gai (args ! 1) 3007 junk")
      (auto simp: echo_client_def wp_if wp_pure wp_bnd[of "sys k c" for c] wp_sys bnd_pure bnd_halt wp_halt
        client_ok_def[of h _ Usage] client_ok_def[of h _ Unresolved] split: option.splits)
  from wp_InrD[OF this assms(3)] show ?thesis by (simp add: client_ok_def)
qed

theorem echo_client_closes_witness:
  "\<exists>out h'. echo_client three_a_time (\<lambda>_. Some [inet_listen 0 False (replicate 28 NUL)]) (replicate 28 NUL)
      [''client'', ''localhost'', ''5'', ''s''] [] = (Inr out, h') \<and> out = Finished 5 0 \<and> open_fds h' = {}"
proof -
  let ?gai = "\<lambda>_. Some [inet_listen 0 False (replicate 28 NUL)]" and ?args = "[''client'', ''localhost'', ''5'', ''s'']"
  have len: "atoi ''5'' = 5" by code_simp
  obtain h' where r: "echo_client three_a_time ?gai (replicate 28 NUL) ?args [] = (Inr (Finished 5 0), h')"
    using demo_addr demo_not_self
    by (simp add: echo_client_def client_run_def client_tail_def tcp_connect_def connectInternal_def sendAll_def
        numeral_eq_Suc resolve_def resolveAll_def sock_defs io_simps three_a_time_def inet_of_sockaddr_def len)
  from echo_client_closes[OF three_a_time_fresh three_a_time_ok r] r show ?thesis by simp
qed

end
