(* ===== verification/Ttcp_Roundtrip.thy ===== *)
theory Ttcp_Roundtrip
  imports Ttcp_Claims
begin

text \<open>
  The echo client and one thread of the echo server on a connection, from the first byte sent to the last byte
  received: for messages that fit the buffers of the connection the two never block each other, end after a
  bounded number of steps, and the client receives what it has sent.
\<close>

section \<open>A connection\<close>

text \<open>The bytes received at an end, and those sent at one end and not yet received at the other.\<close>

fun got :: "int \<Rightarrow> history \<Rightarrow> bytes" where
  "got fd [] = []"
| "got fd ((c, r) # h) =
     got fd h @ (case c of
       CRecv f n p \<Rightarrow> if f = fd then take (nat (ret r)) (dat r) else []
     | CRecvAll f n \<Rightarrow> if f = fd then take (nat (ret r)) (dat r) else []
     | _ \<Rightarrow> [])"

definition in_flight :: "int \<Rightarrow> int \<Rightarrow> history \<Rightarrow> bytes" where
  "in_flight a b h = drop (length (got b h)) (sent_on a h)"

text \<open>
  One direction of a connection, with a buffer of \<open>A\<close> bytes: a send is accepted at least in part while
  there is room; a receive gives some of the bytes that are there, in order; with
  \<^verbatim>\<open>MSG_WAITALL\<close> it gives all it asks for once they are there.
\<close>

definition carries :: "kernel \<Rightarrow> int \<Rightarrow> int \<Rightarrow> nat \<Rightarrow> bool" where
  "carries k a b A \<longleftrightarrow>
     (\<forall>h m. m \<noteq> [] \<longrightarrow> length (in_flight a b h) < A \<longrightarrow>
        0 < ret (k h (CSend a m)) \<and> ret (k h (CSend a m)) \<le> int (length m)) \<and>
     (\<forall>h n. in_flight a b h \<noteq> [] \<longrightarrow> 0 < n \<longrightarrow>
        (let r = k h (CRecv b n False) in 0 < ret r \<and> nat (ret r) \<le> min n (length (in_flight a b h)) \<and>
           dat r = take (nat (ret r)) (in_flight a b h))) \<and>
     (\<forall>h n. n \<le> length (in_flight a b h) \<longrightarrow>
        ret (k h (CRecvAll b n)) = int n \<and> dat (k h (CRecvAll b n)) = take n (in_flight a b h))"

lemma carriesD:
  assumes "carries k a b A"
  shows "m \<noteq> [] \<Longrightarrow> length (in_flight a b h) < A \<Longrightarrow> 0 < ret (k h (CSend a m)) \<and> ret (k h (CSend a m)) \<le> int (length m)"
    and "in_flight a b h \<noteq> [] \<Longrightarrow> 0 < n \<Longrightarrow> 0 < ret (k h (CRecv b n False)) \<and>
      nat (ret (k h (CRecv b n False))) \<le> length (in_flight a b h) \<and>
      dat (k h (CRecv b n False)) = take (nat (ret (k h (CRecv b n False)))) (in_flight a b h)"
    and "n \<le> length (in_flight a b h) \<Longrightarrow>
      ret (k h (CRecvAll b n)) = int n \<and> dat (k h (CRecvAll b n)) = take n (in_flight a b h)"
  using assms by (auto simp: carries_def Let_def)

section \<open>Runs\<close>

text \<open>Who can go on without blocking: a send needs room, a receive needs a byte.\<close>

definition enabled :: "int \<Rightarrow> int \<Rightarrow> nat \<Rightarrow> nat \<Rightarrow> bytes \<Rightarrow> duet_turn \<Rightarrow> cli \<times> conn \<Rightarrow> history \<Rightarrow> bool" where
  "enabled cfd sfd A B buf t s h =
     (case t of
        CliTurn \<Rightarrow>
          (case fst s of
             CliSending w \<Rightarrow> w < length buf \<longrightarrow> length (in_flight cfd sfd h) < A
           | CliSent w \<Rightarrow> False)
      | SrvTurn \<Rightarrow>
          (case snd s of
             Receiving fd \<Rightarrow> in_flight cfd sfd h \<noteq> []
           | Sending fd b w \<Rightarrow> w < length b \<longrightarrow> length (in_flight sfd cfd h) < B
           | _ \<Rightarrow> False))"

text \<open>The states that client and server reach in \<open>n\<close> steps, in any order of the two.\<close>

inductive echo_run :: "kernel \<Rightarrow> int \<Rightarrow> int \<Rightarrow> nat \<Rightarrow> nat \<Rightarrow> bytes \<Rightarrow> nat \<Rightarrow> cli \<times> conn \<Rightarrow> history \<Rightarrow> bool"
  for k cfd sfd A B buf where
  start: "echo_run k cfd sfd A B buf 0 (CliSending 0, Receiving sfd) []"
| step: "echo_run k cfd sfd A B buf n s h \<Longrightarrow> enabled cfd sfd A B buf t s h \<Longrightarrow>
    duet_step k cfd buf t s h = (Inr s', h') \<Longrightarrow> echo_run k cfd sfd A B buf (Suc n) s' h'"

inductive_simps echo_run_0: "echo_run k cfd sfd A B buf 0 s h"

text \<open>The steps made are paid for by bytes sent, received and sent back.\<close>

definition paid :: "int \<Rightarrow> cli \<times> conn \<Rightarrow> history \<Rightarrow> nat" where
  "paid sfd s h =
     written (fst s) + (case fst s of CliSent w \<Rightarrow> 1 | _ \<Rightarrow> 0) +
     (2 * length (got sfd h) - (case snd s of Sending fd b w \<Rightarrow> 1 | _ \<Rightarrow> 0)) + length (sent_on sfd h)"

definition echo_ok :: "int \<Rightarrow> int \<Rightarrow> bytes \<Rightarrow> cli \<times> conn \<Rightarrow> history \<Rightarrow> bool" where
  "echo_ok cfd sfd buf s h \<longleftrightarrow>
     sent_on cfd h = take (written (fst s)) buf \<and> written (fst s) \<le> length buf \<and>
     (\<forall>w. fst s = CliSent w \<longrightarrow> w = length buf) \<and> got cfd h = [] \<and>
     prefix (got sfd h) (take (written (fst s)) buf) \<and>
     (case snd s of
        Receiving fd \<Rightarrow> fd = sfd \<and> sent_on sfd h = got sfd h
      | Sending fd b w \<Rightarrow> fd = sfd \<and> w \<le> length b \<and> got sfd h = sent_on sfd h @ drop w b \<and> got sfd h \<noteq> []
      | _ \<Rightarrow> False)"

lemma got_other [simp]:
  "got fd ((CSend f b, r) # h) = got fd h"
  "got fd ((CRecv f n p, r) # h) = got fd h @ (if f = fd then take (nat (ret r)) (dat r) else [])"
  by simp_all

lemma echo_ok_start: "echo_ok cfd sfd buf (CliSending 0, Receiving sfd) []"
  by (simp add: echo_ok_def written_def)

text \<open>The bytes under way, in a good state.\<close>

lemma echo_ok_flight:
  assumes "echo_ok cfd sfd buf s h"
  shows "got sfd h @ in_flight cfd sfd h = take (written (fst s)) buf" "in_flight sfd cfd h = sent_on sfd h"
    and "length (got sfd h) + length (in_flight cfd sfd h) = written (fst s)"
proof -
  show 1: "got sfd h @ in_flight cfd sfd h = take (written (fst s)) buf"
    using assms by (auto simp: echo_ok_def in_flight_def prefix_def)
  show "in_flight sfd cfd h = sent_on sfd h" using assms by (simp add: echo_ok_def in_flight_def)
  show "length (got sfd h) + length (in_flight cfd sfd h) = written (fst s)"
    using arg_cong[OF 1, of length] assms by (simp add: echo_ok_def)
qed

lemma cli_keeps:
  assumes net: "carries k cfd sfd A" "cfd \<noteq> sfd" and ok: "echo_ok cfd sfd buf s h" and en: "enabled cfd sfd A B buf CliTurn s h"
  shows "wp (duet_step k cfd buf CliTurn s)
    (\<lambda>s' h'. echo_ok cfd sfd buf s' h' \<and> paid sfd s h < paid sfd s' h') (\<lambda>_ _. False) h"
proof -
  obtain w where w: "fst s = CliSending w" using en by (auto simp: enabled_def split: cli.splits)
  show ?thesis
  proof (cases "w < length buf")
    case False
    then show ?thesis
      using ok w by (auto simp: duet_step_def cli_step_def wp_simps echo_ok_def paid_def written_def)
  next
    case True
    let ?r = "k h (CSend cfd (drop w buf))"
    have "0 < ret ?r" "ret ?r \<le> int (length buf - w)"
      using carriesD(1)[OF net(1), of "drop w buf" h] en w True by (auto simp: enabled_def)
    then have "0 < ret ?r" "nat (ret ?r) \<le> length buf - w" by linarith+
    then show ?thesis
      using ok w True net(2)
      by (auto simp: duet_step_def cli_step_def sock_defs wp_simps echo_ok_def paid_def written_def take_add split: conn.splits)
  qed
qed

lemma srv_keeps:
  assumes net: "carries k cfd sfd A" "carries k sfd cfd B" "cfd \<noteq> sfd"
    and ok: "echo_ok cfd sfd buf s h" and en: "enabled cfd sfd A B buf SrvTurn s h"
  shows "wp (duet_step k cfd buf SrvTurn s)
    (\<lambda>s' h'. echo_ok cfd sfd buf s' h' \<and> paid sfd s h < paid sfd s' h') (\<lambda>_ _. False) h"
proof (cases "snd s")
  case (Receiving fd)
  let ?r = "k h (CRecv sfd 4096 False)"
  let ?f = "in_flight cfd sfd h" and ?m = "nat (ret ?r)"
  have r: "0 < ret ?r" "?m \<le> length ?f" "dat ?r = take ?m ?f"
    using carriesD(2)[OF net(1), of h 4096] en Receiving by (auto simp: enabled_def)
  note flight = echo_ok_flight[OF ok]
  have pre: "prefix (got sfd h @ take ?m ?f) (take (written (fst s)) buf)"
    using flight(1) by (metis append.assoc append_take_drop_id prefixI)
  show ?thesis
    using Receiving ok pre r net(3)
    by (auto simp: duet_step_def echo_work_def sock_defs wp_simps echo_ok_def paid_def min_def split: cli.splits)
next
  case (Sending fd b w)
  show ?thesis
  proof (cases "w < length b")
    case False
    then show ?thesis
      using ok Sending by (auto simp: duet_step_def echo_work_def wp_simps echo_ok_def paid_def)
  next
    case True
    let ?r = "k h (CSend sfd (drop w b))"
    have "0 < ret ?r" "ret ?r \<le> int (length b - w)"
      using carriesD(1)[OF net(2), of "drop w b" h] en Sending True by (auto simp: enabled_def)
    then have r: "0 < ret ?r" "nat (ret ?r) \<le> length b - w" by linarith+
    have cut: "take (nat (ret ?r)) (drop w b) @ drop (w + nat (ret ?r)) b = drop w b"
      by (metis append_take_drop_id drop_drop add.commute)
    show ?thesis
      using ok Sending True net(3) r cut
      by (auto simp: duet_step_def echo_work_def sock_defs wp_simps echo_ok_def paid_def)
  qed
qed (use en in \<open>auto simp: enabled_def\<close>)

lemma echo_step:
  assumes "carries k cfd sfd A" "carries k sfd cfd B" "cfd \<noteq> sfd"
    and "echo_ok cfd sfd buf s h" and "enabled cfd sfd A B buf t s h"
  obtains s' h' where "duet_step k cfd buf t s h = (Inr s', h')" "echo_ok cfd sfd buf s' h'" "paid sfd s h < paid sfd s' h'"
  using cli_keeps[OF assms(1,3,4), of B] srv_keeps[OF assms(1-4)] assms(5)
  by (cases t) (auto simp: wp_def split: prod.splits sum.splits)

lemma echo_run_ok:
  assumes net: "carries k cfd sfd A" "carries k sfd cfd B" "cfd \<noteq> sfd" and "echo_run k cfd sfd A B buf n s h"
  shows "echo_ok cfd sfd buf s h \<and> n \<le> paid sfd s h"
  using assms(4)
proof induction
  case start
  show ?case by (simp add: echo_ok_start)
next
  case (step n s h t s' h')
  then show ?case by (auto elim: echo_step[OF net])
qed

lemma paid_bound:
  assumes "echo_ok cfd sfd buf s h"
  shows "paid sfd s h \<le> 4 * length buf + 1"
proof -
  have w: "written (fst s) \<le> length buf" using assms by (simp add: echo_ok_def)
  have g: "length (got sfd h) \<le> length buf" using echo_ok_flight(3)[OF assms] w by linarith
  have "length (sent_on sfd h) \<le> length (got sfd h)"
    using assms by (auto simp: echo_ok_def split: conn.splits)
  then have "written (fst s) + 1 + 2 * length (got sfd h) + length (sent_on sfd h) \<le> 4 * length buf + 1" using w g by linarith
  then show ?thesis by (cases "fst s"; cases "snd s") (auto simp: paid_def)
qed

text \<open>Somebody can go on until all has been sent back.\<close>

lemma echo_enabled:
  assumes ok: "echo_ok cfd sfd buf s h" and room: "length buf \<le> A" "length buf \<le> B"
    and more: "s \<noteq> (CliSent (length buf), Receiving sfd) \<or> sent_on sfd h \<noteq> buf"
  shows "\<exists>t. enabled cfd sfd A B buf t s h"
proof (rule ccontr)
  assume "\<nexists>t. enabled cfd sfd A B buf t s h"
  then have no: "\<not> enabled cfd sfd A B buf CliTurn s h" "\<not> enabled cfd sfd A B buf SrvTurn s h" by auto
  note flight = echo_ok_flight[OF ok]
  have w: "fst s = CliSent (length buf)"
  proof (cases "fst s")
    case (CliSending w)
    then have "w < length buf" "A \<le> length (in_flight cfd sfd h)" using no(1) by (simp_all add: enabled_def)
    with flight(3) CliSending room show ?thesis by (simp add: written_def)
  qed (use ok in \<open>simp add: echo_ok_def\<close>)
  then have all: "got sfd h @ in_flight cfd sfd h = buf" using flight(1) by (simp add: written_def)
  show False
  proof (cases "snd s")
    case (Receiving fd)
    then have "fd = sfd" "sent_on sfd h = got sfd h" "in_flight cfd sfd h = []"
      using ok no(2) by (simp_all add: echo_ok_def enabled_def)
    with all w Receiving more show False by (cases s) simp
  next
    case (Sending fd b u)
    then have "u < length b" "B \<le> length (sent_on sfd h)" "got sfd h = sent_on sfd h @ drop u b"
      using ok no(2) flight(2) by (simp_all add: echo_ok_def enabled_def)
    with arg_cong[OF all, of length] room show False by simp
  qed (use ok in \<open>simp_all add: echo_ok_def\<close>)
qed

section \<open>The round trip\<close>

text \<open>
  C25. A message that fits the buffers of the connection makes the round trip: however client and server
  alternate, they make at most 4 * length + 1 steps; as long as the message has not come back whole
  one of them can go on without blocking; and then the client's receive gives exactly the message it has sent.
\<close>
theorem echo_round_trip:
  assumes "carries k cfd sfd A" "carries k sfd cfd B" "cfd \<noteq> sfd" and "length buf \<le> A" "length buf \<le> B"
    and "echo_run k cfd sfd A B buf n s h"
  shows "n \<le> 4 * length buf + 1 \<and>
    (if s = (CliSent (length buf), Receiving sfd) \<and> sent_on sfd h = buf
     then \<exists>r h'. receiveAll k cfd (length buf) h = (Inr r, h') \<and> ret r = int (length buf) \<and> dat r = buf
     else \<exists>t s' h'. enabled cfd sfd A B buf t s h \<and> duet_step k cfd buf t s h = (Inr s', h'))"
proof -
  have ok: "echo_ok cfd sfd buf s h" and n: "n \<le> paid sfd s h"
    using echo_run_ok[OF assms(1-3,6)] by auto
  have "n \<le> 4 * length buf + 1" using n paid_bound[OF ok] by linarith
  moreover have "\<exists>t s' h'. enabled cfd sfd A B buf t s h \<and> duet_step k cfd buf t s h = (Inr s', h')"
    if "\<not> (s = (CliSent (length buf), Receiving sfd) \<and> sent_on sfd h = buf)"
    using echo_enabled[OF ok assms(4,5)] that by (metis echo_step[OF assms(1-3) ok])
  moreover have "\<exists>r h'. receiveAll k cfd (length buf) h = (Inr r, h') \<and> ret r = int (length buf) \<and> dat r = buf"
    if "sent_on sfd h = buf"
  proof -
    have "in_flight sfd cfd h = buf" using echo_ok_flight(2)[OF ok] that by simp
    from carriesD(3)[OF assms(2), of "length buf" h] this show ?thesis
      by (simp add: receiveAll_def io_simps)
  qed
  ultimately show ?thesis by auto
qed

definition pair_kernel :: kernel where
  "pair_kernel h c =
     (case c of
        CSend fd b \<Rightarrow> mk_ret (int (length b))
      | CRecv fd n p \<Rightarrow> let u = take n (in_flight (9 - fd) fd h) in mk_ret (int (length u))\<lparr>dat := u\<rparr>
      | CRecvAll fd n \<Rightarrow> let u = take n (in_flight (9 - fd) fd h) in mk_ret (int (length u))\<lparr>dat := u\<rparr>
      | _ \<Rightarrow> mk_ret 0)"

lemma pair_kernel_carries: "carries pair_kernel 4 5 A" "carries pair_kernel 5 4 A"
  by (auto simp: carries_def pair_kernel_def Let_def min_def)

lemma echo_goes:
  "echo_run k cfd sfd A B buf n s h \<Longrightarrow> enabled cfd sfd A B buf t s h \<Longrightarrow>
    duet_step k cfd buf t s h = (Inr s', h') \<Longrightarrow> m = Suc n \<Longrightarrow> echo_run k cfd sfd A B buf m s' h'"
  by (simp add: echo_run.step)

theorem echo_round_trip_witness:
  "\<exists>h r h'. echo_run pair_kernel 4 5 2 2 ''hi'' 5 (CliSent 2, Receiving 5) h \<and>
    receiveAll pair_kernel 4 2 h = (Inr r, h') \<and> ret r = 2 \<and> dat r = ''hi''"
proof -
  let ?run = "echo_run pair_kernel 4 5 2 2 ''hi''"
  let ?h1 = "[(CSend 4 ''hi'', mk_ret 2)]"
  let ?h2 = "(CRecv 5 4096 False, mk_ret 2\<lparr>dat := ''hi''\<rparr>) # ?h1"
  let ?h3 = "(CSend 5 ''hi'', mk_ret 2) # ?h2"
  note run_simps = duet_step_def cli_step_def echo_work_def sock_defs io_simps pair_kernel_def in_flight_def enabled_def Let_def
  have "?run 0 (CliSending 0, Receiving 5) []" by (simp add: echo_run_0)
  then have "?run 1 (CliSending 2, Receiving 5) ?h1"
    by (rule echo_goes[where t = CliTurn]) (simp_all add: run_simps)
  then have "?run 2 (CliSent 2, Receiving 5) ?h1"
    by (rule echo_goes[where t = CliTurn]) (simp_all add: run_simps)
  then have "?run 3 (CliSent 2, Sending 5 ''hi'' 0) ?h2"
    by (rule echo_goes[where t = SrvTurn]) (simp_all add: run_simps)
  then have "?run 4 (CliSent 2, Sending 5 ''hi'' 2) ?h3"
    by (rule echo_goes[where t = SrvTurn]) (simp_all add: run_simps)
  then have run: "?run 5 (CliSent 2, Receiving 5) ?h3"
    by (rule echo_goes[where t = SrvTurn]) (simp_all add: run_simps)
  have two: "length ''hi'' = 2" by simp
  from echo_round_trip[OF pair_kernel_carries _ _ _ run] have "\<exists>r h'. receiveAll pair_kernel 4 2 ?h3 = (Inr r, h') \<and> ret r = 2 \<and> dat r = ''hi''"
    unfolding two by simp
  with run show ?thesis by blast
qed

end
