(* ===== verification/Task_Threads.thy ===== *)
theory Task_Threads
  imports Main
begin

text \<open>
  \<^verbatim>\<open>blockio/test.cc\<close>: threads that share a counter of tasks and a mutex and run
  \<^verbatim>\<open>Task::handle\<close>. One step is one access of the counter or the mutex, or the
  task itself; a schedule lists which thread goes next. The test outside the lock reads the
  counter while another thread may write it, which C++ leaves undefined; the model gives it the
  value of that moment.
\<close>

section \<open>Threads\<close>

text \<open>
  Where a thread of \<^verbatim>\<open>handle\<close> stands: before the test, the lock, the second
  test, the two statements that take a task, the statement of the other branch, the unlocking at
  the end of the guard's scope, and the task; or it has returned.
\<close>

datatype tpc = T_Test | T_Lock | T_Retest | T_Take | T_Dec | T_Zero | T_Unlock | T_Do | T_Done

record worker =
  w_pc :: tpc
  task_id :: int

record tsys =
  tx :: int
  guard :: "nat option"
  workers :: "worker list"
  tasks_done :: "int list"

definition set_worker :: "nat \<Rightarrow> worker \<Rightarrow> tsys \<Rightarrow> tsys" where
  "set_worker i w s = s\<lparr>workers := (workers s)[i := w]\<rparr>"

definition handle_step :: "nat \<Rightarrow> worker \<Rightarrow> tsys \<Rightarrow> tsys option" where
  "handle_step i w s =
     (let next = (\<lambda>p. w\<lparr>w_pc := p\<rparr>) in
      case w_pc w of
        T_Test \<Rightarrow> Some (set_worker i (next (if 0 < tx s then T_Lock else T_Done)) s)
      | T_Lock \<Rightarrow> if guard s = None then Some (set_worker i (next T_Retest) (s\<lparr>guard := Some i\<rparr>)) else None
      | T_Retest \<Rightarrow> Some (set_worker i (next (if 0 < tx s then T_Take else T_Zero)) s)
      | T_Take \<Rightarrow> Some (set_worker i (w\<lparr>w_pc := T_Dec, task_id := tx s\<rparr>) s)
      | T_Dec \<Rightarrow> Some (set_worker i (next T_Unlock) (s\<lparr>tx := tx s - 1\<rparr>))
      | T_Zero \<Rightarrow> Some (set_worker i (next T_Unlock) (s\<lparr>tx := 0\<rparr>))
      | T_Unlock \<Rightarrow> Some (set_worker i (next T_Do) (s\<lparr>guard := None\<rparr>))
      | T_Do \<Rightarrow> Some (set_worker i (next T_Test) (s\<lparr>tasks_done := tasks_done s @ [task_id w]\<rparr>))
      | T_Done \<Rightarrow> None)"

definition task_step :: "nat \<Rightarrow> tsys \<Rightarrow> tsys option" where
  "task_step i s = (if i < length (workers s) then handle_step i (workers s ! i) s else None)"

fun task_run :: "nat list \<Rightarrow> tsys \<Rightarrow> tsys option" where
  "task_run [] s = Some s"
| "task_run (i # sched) s = (case task_step i s of None \<Rightarrow> None | Some s' \<Rightarrow> task_run sched s')"

text \<open>\<^verbatim>\<open>main\<close> starts the threads on a counter of \<open>n\<close> tasks; in the source 7 and 100.\<close>

definition task_main :: "nat \<Rightarrow> nat \<Rightarrow> tsys" where
  "task_main m n =
     \<lparr>tx = int n, guard = None, workers = replicate m \<lparr>w_pc = T_Test, task_id = 0\<rparr>, tasks_done = []\<rparr>"

section \<open>What the threads keep\<close>

definition in_guard :: "tpc \<Rightarrow> bool" where
  "in_guard p \<longleftrightarrow> p \<in> {T_Retest, T_Take, T_Dec, T_Zero, T_Unlock}"

definition at :: "nat \<Rightarrow> tpc \<Rightarrow> tsys \<Rightarrow> bool" where
  "at i p s \<longleftrightarrow> i < length (workers s) \<and> w_pc (workers s ! i) = p"

definition worker_ok :: "nat \<Rightarrow> int \<Rightarrow> worker \<Rightarrow> bool" where
  "worker_ok n x w \<longleftrightarrow> 0 \<le> task_id w \<and> task_id w \<le> int n \<and>
     (w_pc w = T_Done \<longrightarrow> x = 0) \<and> (w_pc w = T_Take \<longrightarrow> 0 < x) \<and> (w_pc w = T_Dec \<longrightarrow> 0 < x \<and> task_id w = x) \<and> (w_pc w = T_Zero \<longrightarrow> x = 0)"

text \<open>
  The guard is held by the one thread inside it; every number above the counter has been done,
  or is held by a thread that is about to do it.
\<close>

definition guard_inv :: "tsys \<Rightarrow> bool" where
  "guard_inv s \<longleftrightarrow> (\<forall>i. guard s = Some i \<longrightarrow> i < length (workers s)) \<and>
     (\<forall>j < length (workers s). in_guard (w_pc (workers s ! j)) \<longleftrightarrow> guard s = Some j)"

definition workers_ok :: "nat \<Rightarrow> tsys \<Rightarrow> bool" where
  "workers_ok n s \<longleftrightarrow> 0 \<le> tx s \<and> tx s \<le> int n \<and> set (tasks_done s) \<subseteq> {0..int n} \<and>
     (\<forall>j < length (workers s). worker_ok n (tx s) (workers s ! j))"

definition about_to_do :: "int \<Rightarrow> tsys \<Rightarrow> bool" where
  "about_to_do v s \<longleftrightarrow> (\<exists>j < length (workers s). task_id (workers s ! j) = v \<and> w_pc (workers s ! j) \<in> {T_Unlock, T_Do})"

definition all_taken :: "nat \<Rightarrow> tsys \<Rightarrow> bool" where
  "all_taken n s \<longleftrightarrow> (\<forall>v. tx s < v \<and> v \<le> int n \<longrightarrow> v \<in> set (tasks_done s) \<or> about_to_do v s)"

definition task_inv :: "nat \<Rightarrow> tsys \<Rightarrow> bool" where
  "task_inv n s \<longleftrightarrow> guard_inv s \<and> workers_ok n s \<and> all_taken n s"

lemma task_main_inv: "task_inv n (task_main m n)"
  by (auto simp: task_inv_def guard_inv_def workers_ok_def all_taken_def task_main_def worker_ok_def in_guard_def)

lemma in_guard_simps [simp]:
  "in_guard T_Retest" "in_guard T_Take" "in_guard T_Dec" "in_guard T_Zero" "in_guard T_Unlock"
  "\<not> in_guard T_Test" "\<not> in_guard T_Lock" "\<not> in_guard T_Do" "\<not> in_guard T_Done"
  by (simp_all add: in_guard_def)

lemma task_stepE:
  assumes "task_step i s = Some s'"
  obtains "i < length (workers s)" "handle_step i (workers s ! i) s = Some s'"
  using assms by (auto simp: task_step_def split: if_splits)

lemmas handle_defs = handle_step_def set_worker_def Let_def

lemma guard_step:
  assumes "guard_inv s" and "task_step i s = Some s'"
  shows "guard_inv s'"
proof -
  from assms(2) obtain i: "i < length (workers s)" and st: "handle_step i (workers s ! i) s = Some s'"
    by (rule task_stepE)
  have me: "in_guard (w_pc (workers s ! i)) \<longleftrightarrow> guard s = Some i" using assms(1) i by (simp add: guard_inv_def)
  show ?thesis
    using assms(1) i st me
    by (cases "w_pc (workers s ! i)") (auto simp: handle_defs guard_inv_def nth_list_update split: if_splits)
qed

text \<open>What a step does to the counter and to the worker that makes it.\<close>

lemma handle_step_shape:
  assumes "handle_step i w s = Some s'"
  obtains w' where "workers s' = (workers s)[i := w']"
    and "tx s' = (case w_pc w of T_Dec \<Rightarrow> tx s - 1 | T_Zero \<Rightarrow> 0 | _ \<Rightarrow> tx s)"
    and "task_id w' = (if w_pc w = T_Take then tx s else task_id w)"
    and "w_pc w' = (case w_pc w of
        T_Test \<Rightarrow> if 0 < tx s then T_Lock else T_Done | T_Lock \<Rightarrow> T_Retest
      | T_Retest \<Rightarrow> if 0 < tx s then T_Take else T_Zero | T_Take \<Rightarrow> T_Dec | T_Dec \<Rightarrow> T_Unlock
      | T_Zero \<Rightarrow> T_Unlock | T_Unlock \<Rightarrow> T_Do | _ \<Rightarrow> T_Test)"
    and "tasks_done s' = tasks_done s @ (if w_pc w = T_Do then [task_id w] else [])"
    and "w_pc w \<noteq> T_Done"
  using assms by (cases "w_pc w") (auto simp: handle_defs split: if_splits)

lemma workers_ok_step:
  assumes "guard_inv s" and "workers_ok n s" and "task_step i s = Some s'"
  shows "workers_ok n s'"
proof -
  from assms(3) obtain i: "i < length (workers s)" and st: "handle_step i (workers s ! i) s = Some s'"
    by (rule task_stepE)
  let ?w = "workers s ! i"
  from st obtain w' where w': "workers s' = (workers s)[i := w']"
    and x: "tx s' = (case w_pc ?w of T_Dec \<Rightarrow> tx s - 1 | T_Zero \<Rightarrow> 0 | _ \<Rightarrow> tx s)"
    and id: "task_id w' = (if w_pc ?w = T_Take then tx s else task_id ?w)"
    and pc: "w_pc w' = (case w_pc ?w of
        T_Test \<Rightarrow> if 0 < tx s then T_Lock else T_Done | T_Lock \<Rightarrow> T_Retest
      | T_Retest \<Rightarrow> if 0 < tx s then T_Take else T_Zero | T_Take \<Rightarrow> T_Dec | T_Dec \<Rightarrow> T_Unlock
      | T_Zero \<Rightarrow> T_Unlock | T_Unlock \<Rightarrow> T_Do | _ \<Rightarrow> T_Test)"
    and d: "tasks_done s' = tasks_done s @ (if w_pc ?w = T_Do then [task_id ?w] else [])"
    by (rule handle_step_shape)
  have me: "worker_ok n (tx s) ?w" and range: "0 \<le> tx s" "tx s \<le> int n"
    using assms(2) i by (auto simp: workers_ok_def)
  have x': "0 \<le> tx s' \<and> tx s' \<le> int n"
    using x range me by (cases "w_pc ?w") (auto simp: worker_ok_def)
  have ran: "set (tasks_done s') \<subseteq> {0..int n}"
    using d me assms(2) by (auto simp: worker_ok_def workers_ok_def)
  have "worker_ok n (tx s') w'"
    using x id pc me range by (cases "w_pc ?w") (auto simp: worker_ok_def)
  moreover have "worker_ok n (tx s') (workers s ! j)" if j: "j < length (workers s)" "j \<noteq> i" for j
  proof (cases "w_pc ?w \<in> {T_Dec, T_Zero}")
    case True
    then have "\<not> in_guard (w_pc (workers s ! j))" using assms(1) i j by (auto simp: guard_inv_def)
    then have "w_pc (workers s ! j) \<notin> {T_Take, T_Dec, T_Zero}" by auto
    moreover have "worker_ok n (tx s) (workers s ! j)" using assms(2) j by (simp add: workers_ok_def)
    moreover have "w_pc (workers s ! j) = T_Done \<longrightarrow> tx s' = 0"
      using calculation(2) True x me by (auto simp: worker_ok_def)
    ultimately show ?thesis by (auto simp: worker_ok_def)
  next
    case False
    then have "tx s' = tx s" using x by (cases "w_pc ?w") auto
    then show ?thesis using assms(2) j by (simp add: workers_ok_def)
  qed
  ultimately show ?thesis
    using x' w' i ran by (auto simp: workers_ok_def nth_list_update)
qed

lemma all_taken_step:
  assumes "workers_ok n s" and "all_taken n s" and "task_step i s = Some s'"
  shows "all_taken n s'"
proof -
  from assms(3) obtain i: "i < length (workers s)" and st: "handle_step i (workers s ! i) s = Some s'"
    by (rule task_stepE)
  let ?w = "workers s ! i"
  from st obtain w' where w': "workers s' = (workers s)[i := w']"
    and x: "tx s' = (case w_pc ?w of T_Dec \<Rightarrow> tx s - 1 | T_Zero \<Rightarrow> 0 | _ \<Rightarrow> tx s)"
    and id: "task_id w' = (if w_pc ?w = T_Take then tx s else task_id ?w)"
    and pc: "w_pc w' = (case w_pc ?w of
        T_Test \<Rightarrow> if 0 < tx s then T_Lock else T_Done | T_Lock \<Rightarrow> T_Retest
      | T_Retest \<Rightarrow> if 0 < tx s then T_Take else T_Zero | T_Take \<Rightarrow> T_Dec | T_Dec \<Rightarrow> T_Unlock
      | T_Zero \<Rightarrow> T_Unlock | T_Unlock \<Rightarrow> T_Do | _ \<Rightarrow> T_Test)"
    and d: "tasks_done s' = tasks_done s @ (if w_pc ?w = T_Do then [task_id ?w] else [])"
    by (rule handle_step_shape)
  have me: "worker_ok n (tx s) ?w" using assms(1) i by (simp add: workers_ok_def)
  have other: "about_to_do v s'" if "j < length (workers s)" "j \<noteq> i" "task_id (workers s ! j) = v"
    "w_pc (workers s ! j) \<in> {T_Unlock, T_Do}" for j v
    unfolding about_to_do_def w' using that by (intro exI[of _ j]) simp
  have mine: "about_to_do v s'" if "task_id w' = v" "w_pc w' \<in> {T_Unlock, T_Do}" for v
    unfolding about_to_do_def w' using that i by (intro exI[of _ i]) simp
  have "v \<in> set (tasks_done s') \<or> about_to_do v s'" if v: "tx s' < v" "v \<le> int n" for v
  proof (cases "tx s < v")
    case True
    with assms(2) v(2) consider "v \<in> set (tasks_done s)"
      | j where "j < length (workers s)" "task_id (workers s ! j) = v" "w_pc (workers s ! j) \<in> {T_Unlock, T_Do}"
      by (auto simp: all_taken_def about_to_do_def)
    then show ?thesis
    proof cases
      case 2
      show ?thesis
      proof (cases "j = i")
        case True
        then show ?thesis using 2 mine[of v] pc id d by auto
      qed (use other[OF 2(1)] 2 in blast)
    qed (use d in simp)
  next
    case False
    then have "w_pc ?w = T_Dec \<and> v = tx s"
      using x v(1) me by (cases "w_pc ?w") (auto simp: worker_ok_def)
    then show ?thesis using mine[of v] pc id me by (simp add: worker_ok_def)
  qed
  then show ?thesis by (simp add: all_taken_def)
qed

lemma task_inv_step: "task_inv n s \<Longrightarrow> task_step i s = Some s' \<Longrightarrow> task_inv n s'"
  using guard_step workers_ok_step all_taken_step by (auto simp: task_inv_def)

lemma task_inv_run: "task_inv n s \<Longrightarrow> task_run sched s = Some s' \<Longrightarrow> task_inv n s'"
  by (induction sched arbitrary: s) (auto split: option.splits intro: task_inv_step)

section \<open>How many tasks are done\<close>

text \<open>
  Threads that are about to do a task, and, once the counter is 0, threads that will yet enter the other branch and do a
  task again. While tasks are left the number of tasks done or about to be done is what the counter has lost; after that
  every thread but the one that took the last task may add one.
\<close>

definition weigh :: "(tpc \<Rightarrow> nat) \<Rightarrow> tsys \<Rightarrow> nat" where
  "weigh f s = (\<Sum>j < length (workers s). f (w_pc (workers s ! j)))"

definition ahead :: "tpc \<Rightarrow> nat" where
  "ahead p = (if p \<in> {T_Unlock, T_Do} then 1 else 0)"

definition late :: "tpc \<Rightarrow> nat" where
  "late p = (if p \<in> {T_Lock, T_Retest, T_Zero} then 1 else 0)"

definition count_inv :: "nat \<Rightarrow> tsys \<Rightarrow> bool" where
  "count_inv n s \<longleftrightarrow>
     (if 0 < tx s then int (length (tasks_done s) + weigh ahead s) = int n - tx s
      else length (tasks_done s) + weigh ahead s + weigh late s \<le> n + (length (workers s) - 1))"

lemma weigh_update:
  assumes "workers s' = (workers s)[i := w']" and "i < length (workers s)"
  shows "weigh f s' + f (w_pc (workers s ! i)) = weigh f s + f (w_pc w')"
proof -
  have "(\<Sum>j \<in> {..<length (workers s)} - {i}. f (w_pc (workers s' ! j))) = (\<Sum>j \<in> {..<length (workers s)} - {i}. f (w_pc (workers s ! j)))"
    by (rule sum.cong) (simp_all add: assms(1))
  then show ?thesis
    using assms by (simp add: weigh_def sum.remove[of "{..<length (workers s)}" i])
qed

lemma weigh_late_others:
  assumes "i < length (workers s)" and "late (w_pc (workers s ! i)) = 0"
  shows "weigh late s \<le> length (workers s) - 1"
proof -
  have "(\<Sum>j \<in> {..<length (workers s)} - {i}. late (w_pc (workers s ! j))) \<le> (\<Sum>j \<in> {..<length (workers s)} - {i}. 1)"
    by (rule sum_mono) (simp add: late_def)
  then show ?thesis using assms by (simp add: weigh_def sum.remove[of "{..<length (workers s)}" i])
qed

lemma count_step:
  assumes "workers_ok n s" and "count_inv n s" and "task_step i s = Some s'"
  shows "count_inv n s'"
proof -
  from assms(3) obtain i: "i < length (workers s)" and st: "handle_step i (workers s ! i) s = Some s'"
    by (rule task_stepE)
  let ?w = "workers s ! i"
  from st obtain w' where w': "workers s' = (workers s)[i := w']"
    and x: "tx s' = (case w_pc ?w of T_Dec \<Rightarrow> tx s - 1 | T_Zero \<Rightarrow> 0 | _ \<Rightarrow> tx s)"
    and pc: "w_pc w' = (case w_pc ?w of
        T_Test \<Rightarrow> if 0 < tx s then T_Lock else T_Done | T_Lock \<Rightarrow> T_Retest
      | T_Retest \<Rightarrow> if 0 < tx s then T_Take else T_Zero | T_Take \<Rightarrow> T_Dec | T_Dec \<Rightarrow> T_Unlock
      | T_Zero \<Rightarrow> T_Unlock | T_Unlock \<Rightarrow> T_Do | _ \<Rightarrow> T_Test)"
    and d: "tasks_done s' = tasks_done s @ (if w_pc ?w = T_Do then [task_id ?w] else [])" and live: "w_pc ?w \<noteq> T_Done"
    by (rule handle_step_shape)
  have me: "worker_ok n (tx s) ?w" and nn: "0 \<le> tx s" using assms(1) i by (auto simp: workers_ok_def)
  have len: "length (workers s') = length (workers s)" by (simp add: w')
  have others: "late (w_pc w') = 0 \<Longrightarrow> weigh late s' \<le> length (workers s) - 1"
    using weigh_late_others[of i s'] i by (simp add: w')
  note a = weigh_update[OF w' i, of ahead] and l = weigh_update[OF w' i, of late]
  show ?thesis
    using assms(2) x pc d me nn live a l others unfolding count_inv_def len
    by (cases "w_pc ?w") (auto simp: ahead_def late_def worker_ok_def split: if_splits)
qed

lemma count_main: "count_inv n (task_main m n)"
proof -
  have "weigh ahead (task_main m n) = 0" "weigh late (task_main m n) = 0"
    by (auto simp: weigh_def task_main_def ahead_def late_def)
  then show ?thesis by (auto simp: count_inv_def task_main_def)
qed

lemma count_run: "task_inv n s \<Longrightarrow> count_inv n s \<Longrightarrow> task_run sched s = Some s' \<Longrightarrow> count_inv n s'"
proof (induction sched arbitrary: s)
  case (Cons i sched)
  then obtain t where t: "task_step i s = Some t" "task_run sched t = Some s'" by (auto split: option.splits)
  show ?case
    by (rule Cons.IH[OF task_inv_step[OF Cons.prems(1) t(1)] count_step[OF _ Cons.prems(2) t(1)] t(2)])
      (use Cons.prems(1) in \<open>simp add: task_inv_def\<close>)
qed simp

section \<open>Termination\<close>

text \<open>
  The steps a thread can still make without taking another task, and eight for every task
  that has not been taken.
\<close>

definition steps_left :: "int \<Rightarrow> tpc \<Rightarrow> nat" where
  "steps_left x p =
     (case p of
        T_Test \<Rightarrow> if 0 < x then 8 else 1 | T_Lock \<Rightarrow> 7 | T_Retest \<Rightarrow> 6 | T_Take \<Rightarrow> 5 | T_Dec \<Rightarrow> 4 | T_Zero \<Rightarrow> 5
      | T_Unlock \<Rightarrow> if 0 < x then 10 else 3 | T_Do \<Rightarrow> if 0 < x then 9 else 2 | T_Done \<Rightarrow> 0)"

definition budget :: "tsys \<Rightarrow> nat" where
  "budget s = 8 * nat (tx s) + (\<Sum>j < length (workers s). steps_left (tx s) (w_pc (workers s ! j)))"

lemma steps_left_mono: "x' \<le> x \<Longrightarrow> steps_left x' p \<le> steps_left x p"
  by (cases p) (auto simp: steps_left_def)

lemma budget_step:
  assumes "workers_ok n s" and "task_step i s = Some s'"
  shows "budget s' < budget s"
proof -
  from assms(2) obtain i: "i < length (workers s)" and st: "handle_step i (workers s ! i) s = Some s'"
    by (rule task_stepE)
  let ?w = "workers s ! i" and ?n = "length (workers s)"
  from st obtain w' where w': "workers s' = (workers s)[i := w']"
    and x: "tx s' = (case w_pc ?w of T_Dec \<Rightarrow> tx s - 1 | T_Zero \<Rightarrow> 0 | _ \<Rightarrow> tx s)"
    and pc: "w_pc w' = (case w_pc ?w of
        T_Test \<Rightarrow> if 0 < tx s then T_Lock else T_Done | T_Lock \<Rightarrow> T_Retest
      | T_Retest \<Rightarrow> if 0 < tx s then T_Take else T_Zero | T_Take \<Rightarrow> T_Dec | T_Dec \<Rightarrow> T_Unlock
      | T_Zero \<Rightarrow> T_Unlock | T_Unlock \<Rightarrow> T_Do | _ \<Rightarrow> T_Test)" and live: "w_pc ?w \<noteq> T_Done"
    by (rule handle_step_shape)
  have me: "worker_ok n (tx s) ?w" and nn: "0 \<le> tx s" using assms(1) i by (auto simp: workers_ok_def)
  have le: "tx s' \<le> tx s" using x me by (cases "w_pc ?w") (auto simp: worker_ok_def)
  have less: "8 * nat (tx s') + steps_left (tx s') (w_pc w') < 8 * nat (tx s) + steps_left (tx s) (w_pc ?w)"
    using x pc me nn live by (cases "w_pc ?w") (auto simp: worker_ok_def steps_left_def nat_diff_distrib)
  have "(\<Sum>j \<in> {..<?n} - {i}. steps_left (tx s') (w_pc ((workers s)[i := w'] ! j)))
      \<le> (\<Sum>j \<in> {..<?n} - {i}. steps_left (tx s) (w_pc (workers s ! j)))"
    by (intro sum_mono) (auto intro: steps_left_mono[OF le])
  then show ?thesis
    using less i by (simp add: budget_def w' sum.remove[of "{..<?n}" i])
qed

lemma run_budget: "task_inv n s \<Longrightarrow> task_run sched s = Some s' \<Longrightarrow> length sched + budget s' \<le> budget s"
proof (induction sched arbitrary: s)
  case (Cons i sched)
  then obtain t where t: "task_step i s = Some t" "task_run sched t = Some s'" by (auto split: option.splits)
  have "budget t < budget s" using budget_step[OF _ t(1)] Cons.prems(1) by (auto simp: task_inv_def)
  with Cons.IH[OF task_inv_step[OF Cons.prems(1) t(1)] t(2)] show ?case by simp
qed simp

lemma some_step:
  assumes "guard_inv s" and "w \<in> set (workers s)" and "w_pc w \<noteq> T_Done"
  shows "\<exists>i. task_step i s \<noteq> None"
proof (cases "guard s")
  case None
  obtain i where "i < length (workers s)" "workers s ! i = w" using assms(2) by (auto simp: in_set_conv_nth)
  then have "task_step i s \<noteq> None"
    using None assms(3) by (cases "w_pc w") (simp_all add: task_step_def handle_defs)
  then show ?thesis ..
next
  case (Some i)
  then have "i < length (workers s)" "in_guard (w_pc (workers s ! i))" using assms(1) by (auto simp: guard_inv_def)
  then have "task_step i s \<noteq> None"
    by (cases "w_pc (workers s ! i)") (simp_all add: task_step_def handle_defs)
  then show ?thesis ..
qed

lemma run_length: "task_run sched s = Some s' \<Longrightarrow> length (workers s') = length (workers s)"
proof (induction sched arbitrary: s)
  case (Cons i sched)
  then obtain t where "task_step i s = Some t" "length (workers s') = length (workers t)"
    by (auto split: option.splits)
  then show ?case by (auto elim!: task_stepE handle_step_shape)
qed simp

section \<open>Properties\<close>

text \<open>
  C17. The task threads always come to an end: no schedule is longer than eight steps for every
  thread and task, and as long as a thread has not returned some thread can make a step.
\<close>
theorem task_threads_terminate:
  assumes "task_run sched (task_main m n) = Some s"
  shows "length sched \<le> 8 * (m + n) \<and> ((\<exists>i. task_step i s \<noteq> None) \<longleftrightarrow> (\<exists>w \<in> set (workers s). w_pc w \<noteq> T_Done))"
proof -
  have inv: "task_inv n s" by (rule task_inv_run[OF task_main_inv assms])
  have "budget (task_main m n) \<le> 8 * (m + n)"
    by (simp add: budget_def task_main_def steps_left_def)
  moreover have "task_step i s = None" if "\<forall>w \<in> set (workers s). w_pc w = T_Done" for i
    using that by (simp add: task_step_def handle_step_def Let_def)
  ultimately show ?thesis
    using run_budget[OF task_main_inv assms] some_step[of s] inv unfolding task_inv_def by fastforce
qed

text \<open>
  C18. When all threads have returned (and there is at least one), every task from 1 to n has
  been done; besides, there have been at most as many extra runs as there are threads but one, each of task 0, which is no task, or of
  a task done before.
\<close>
theorem task_threads_do_all:
  assumes "task_run sched (task_main m n) = Some s" and "0 < m" and "\<forall>w \<in> set (workers s). w_pc w = T_Done"
  shows "{1..int n} \<subseteq> set (tasks_done s) \<and> set (tasks_done s) \<subseteq> {0..int n} \<and> length (tasks_done s) \<le> n + (m - 1)"
proof -
  have inv: "task_inv n s" by (rule task_inv_run[OF task_main_inv assms(1)])
  have len: "length (workers s) = m" using run_length[OF assms(1)] by (simp add: task_main_def)
  have "w_pc (workers s ! j) = T_Done" if "j < m" for j using assms(3) len that by simp
  with inv len assms(2) have "tx s = 0" and "\<not> about_to_do v s" for v
    by (auto simp: task_inv_def workers_ok_def worker_ok_def about_to_do_def)
  moreover have "count_inv n s" by (rule count_run[OF task_main_inv count_main assms(1)])
  ultimately show ?thesis using inv len by (auto simp: task_inv_def workers_ok_def all_taken_def count_inv_def)
qed

text \<open>Two threads, two tasks: the loser of the race for the last task does its old one again.\<close>

definition race :: "nat list" where
  "race = replicate 8 0 @ replicate 6 1 @ replicate 5 0 @ [1, 0, 1]"

lemma race_run:
  "map_option (\<lambda>s. (tasks_done s, map w_pc (workers s))) (task_run race (task_main 2 2)) = Some ([2, 2, 1], [T_Done, T_Done])"
  by code_simp

theorem task_threads_terminate_witness:
  "\<exists>s. task_run race (task_main 2 2) = Some s \<and> length race \<le> 8 * (2 + 2) \<and> task_step 0 s = None"
proof -
  obtain s where s: "task_run race (task_main 2 2) = Some s" "map w_pc (workers s) = [T_Done, T_Done]"
    using race_run by auto
  then have "\<not> (\<exists>w \<in> set (workers s). w_pc w \<noteq> T_Done)" by (auto simp: map_eq_Cons_conv)
  with task_threads_terminate[OF s(1)] s(1) show ?thesis by blast
qed

theorem task_threads_do_all_witness:
  "\<exists>s. task_run race (task_main 2 2) = Some s \<and> {1..int 2} \<subseteq> set (tasks_done s) \<and> length (tasks_done s) \<le> 3"
proof -
  obtain s where s: "task_run race (task_main 2 2) = Some s" "map w_pc (workers s) = [T_Done, T_Done]"
    using race_run by auto
  then have "\<forall>w \<in> set (workers s). w_pc w = T_Done" by (auto simp: map_eq_Cons_conv)
  with task_threads_do_all[OF s(1)] s(1) show ?thesis by simp
qed

text \<open>
  A task can be done twice: two threads that both see the last task outside the lock both
  enter the guarded section; the one that comes second takes nothing, and does the task of its
  previous round again.
\<close>
theorem task_done_twice:
  "\<exists>sched s. task_run sched (task_main 2 2) = Some s \<and> tasks_done s = [2, 2, 1] \<and> (\<forall>w \<in> set (workers s). w_pc w = T_Done)"
proof -
  obtain s where s: "task_run race (task_main 2 2) = Some s" "tasks_done s = [2, 2, 1]" "map w_pc (workers s) = [T_Done, T_Done]"
    using race_run by auto
  then have "\<forall>w \<in> set (workers s). w_pc w = T_Done" by (auto simp: map_eq_Cons_conv)
  with s show ?thesis by blast
qed

end
