(* ===== verification/Block_Io.thy ===== *)
theory Block_Io
  imports Wrappers
begin

text \<open>
  The programs of \<^verbatim>\<open>blockio/\<close>: an echo server with a thread per connection
  and its client. A turn of a thread is one system call (the increment of the shared
  \<^verbatim>\<open>count\<close>, which is only printed, is one turn); a schedule interleaves the
  threads with main. The copies of the wrappers are those of \<^verbatim>\<open>common/\<close>.
\<close>

section \<open>The server\<close>

datatype blk = BlkStart int | BlkRead int | BlkWrite int bytes | BlkEnd int

datatype blk_turn = BlkAccept | BlkTurn nat

record blk_state =
  blk_lis :: int
  blk_count :: int
  blk_threads :: "blk list"

definition blk_accept :: "kernel \<Rightarrow> blk_state \<Rightarrow> blk_state io" where
  "blk_accept k s =
     bnd (Accept k (blk_lis s)) (\<lambda>cfd.
       if cfd = -1 then sys_err
       else pure (s\<lparr>blk_threads := blk_threads s @ [BlkStart cfd]\<rparr>))"

text \<open>The result of a write is not looked at; the end of a thread closes nothing.\<close>

definition blk_work :: "kernel \<Rightarrow> blk \<Rightarrow> blk io" where
  "blk_work k t =
     (case t of
        BlkStart fd \<Rightarrow> pure (BlkRead fd)
      | BlkRead fd \<Rightarrow>
          bnd (sys k (CRead fd BUFSIZ)) (\<lambda>r.
            pure (if 0 < ret r then BlkWrite fd (take (nat (ret r)) (dat r)) else BlkEnd fd))
      | BlkWrite fd b \<Rightarrow> bnd (wr k (CWrite fd b)) (\<lambda>_. pure (BlkRead fd))
      | BlkEnd fd \<Rightarrow> halt Blocked)"

definition blk_step :: "kernel \<Rightarrow> blk_turn \<Rightarrow> blk_state \<Rightarrow> blk_state io" where
  "blk_step k t s =
     (case t of
        BlkAccept \<Rightarrow> blk_accept k s
      | BlkTurn i \<Rightarrow>
          if i < length (blk_threads s)
          then bnd (blk_work k (blk_threads s ! i)) (\<lambda>t'.
                 pure (s\<lparr>blk_threads := (blk_threads s)[i := t'],
                         blk_count := blk_count s + (case blk_threads s ! i of BlkStart _ \<Rightarrow> 1 | _ \<Rightarrow> 0)\<rparr>))
          else halt Blocked)"

definition blk_server :: "kernel \<Rightarrow> blk_turn list \<Rightarrow> blk_state io" where
  "blk_server k sched =
     bnd (open_listener k False 9527) (\<lambda>fd.
       for_io sched (blk_step k) \<lparr>blk_lis = fd, blk_count = 0, blk_threads = []\<rparr>)"

section \<open>The client\<close>

text \<open>The arguments are not counted: without one, \<^verbatim>\<open>atoi\<close> gets a null pointer.\<close>

definition blk_client :: "kernel \<Rightarrow> bytes list \<Rightarrow> unit io" where
  "blk_client k args =
     bnd (sys k (CSocket AF_INET SOCK_STREAM 0)) (\<lambda>r. let fd = ret r in
       if fd = -1 then halt (Exit 0)
       else bnd (sys k (CConnect fd 9527)) (\<lambda>r.
       if ret r \<noteq> 0 then halt (Exit 0)
       else if length args < 2 then halt (Undef NullDeref)
       else let len = atoi (args ! 1) in
       if len < 0 then halt Abort
       else bnd (wr k (CWrite fd (replicate (nat len) CHR ''S''))) (\<lambda>r.
       if ret r < 0 then halt (Exit 0)
       else bnd (sys k (CRead fd (nat len))) (\<lambda>_.
            bnd (sys k (CClose fd)) (\<lambda>_. pure ())))))"

section \<open>What the server keeps\<close>

definition blk_fd :: "blk \<Rightarrow> int" where
  "blk_fd t = (case t of BlkStart fd \<Rightarrow> fd | BlkRead fd \<Rightarrow> fd | BlkWrite fd b \<Rightarrow> fd | BlkEnd fd \<Rightarrow> fd)"

definition blk_ok :: "history \<Rightarrow> blk \<Rightarrow> bool" where
  "blk_ok h t \<longleftrightarrow> got_on (blk_fd t) h = handed_on (blk_fd t) h @ (case t of BlkWrite fd b \<Rightarrow> b | _ \<Rightarrow> [])"

definition blk_inv :: "blk_state \<Rightarrow> history \<Rightarrow> bool" where
  "blk_inv s h \<longleftrightarrow> distinct (map blk_fd (blk_threads s)) \<and> set (map blk_fd (blk_threads s)) = open_conns h \<and>
     (\<forall>t \<in> set (blk_threads s). blk_ok h t) \<and>
     (\<forall>fd. fd \<notin> open_conns h \<longrightarrow> got_on fd h = [] \<and> handed_on fd h = [])"

lemma blk_fd_simps [simp]:
  "blk_fd (BlkStart fd) = fd" "blk_fd (BlkRead fd) = fd" "blk_fd (BlkWrite fd b) = fd" "blk_fd (BlkEnd fd) = fd"
  by (simp_all add: blk_fd_def)

lemma blk_inv_accept:
  assumes "accept_fresh k" and "blk_inv s h"
  shows "wp (blk_accept k s) blk_inv any_stop h"
proof -
  have "0 \<le> ret (k h (CAccept l)) \<Longrightarrow> ret (k h (CAccept l)) \<notin> open_conns h" for l
    by (rule accept_freshD(1)[OF assms(1)])
  then show ?thesis
    using assms(2) by (auto simp: blk_accept_def Accept_def wp_simps blk_inv_def blk_ok_def not_less)
qed

lemma blk_inv_count [simp]: "blk_inv (s\<lparr>blk_count := n\<rparr>) h = blk_inv s h"
  by (simp add: blk_inv_def)

text \<open>A turn that leaves the other descriptors alone.\<close>

lemma blk_inv_replace:
  assumes inv: "blk_inv s h" and i: "i < length (blk_threads s)" and fd: "blk_fd t = blk_fd (blk_threads s ! i)"
    and h': "open_conns h' = open_conns h" "\<And>d. d \<noteq> blk_fd t \<Longrightarrow> got_on d h' = got_on d h \<and> handed_on d h' = handed_on d h"
    and ok: "blk_ok h' t"
  shows "blk_inv (s\<lparr>blk_threads := (blk_threads s)[i := t]\<rparr>) h'"
proof -
  have map: "map blk_fd ((blk_threads s)[i := t]) = map blk_fd (blk_threads s)"
    using fd i by (simp add: map_update) (metis length_map list_update_id nth_map)
  have "blk_ok h' ((blk_threads s)[i := t] ! j)" if "j < length (blk_threads s)" for j
  proof (cases "j = i")
    case False
    have "blk_ok h (blk_threads s ! j)" using inv that by (simp add: blk_inv_def)
    moreover have "blk_fd (blk_threads s ! j) \<noteq> blk_fd t"
      using inv i that False fd by (auto simp: blk_inv_def distinct_conv_nth)
    ultimately show ?thesis using False h'(2) by (simp add: blk_ok_def)
  qed (use that ok in simp)
  then have "\<forall>t' \<in> set ((blk_threads s)[i := t]). blk_ok h' t'"
    by (metis in_set_conv_nth length_list_update)
  moreover have "got_on d h' = [] \<and> handed_on d h' = []" if "d \<notin> open_conns h'" for d
  proof -
    have "blk_fd t \<in> open_conns h" using inv i fd by (auto simp: blk_inv_def)
    then have "d \<noteq> blk_fd t" using that h'(1) by auto
    with h'(2)[OF this] show ?thesis using inv h'(1) that by (simp add: blk_inv_def)
  qed
  ultimately show ?thesis using inv map h'(1) by (simp add: blk_inv_def)
qed

lemma blk_inv_step:
  assumes "accept_fresh k" and inv: "blk_inv s h"
  shows "wp (blk_step k t s) blk_inv any_stop h"
proof (cases t)
  case (BlkTurn i)
  show ?thesis
  proof (cases "i < length (blk_threads s)")
    case True
    then have ok: "blk_ok h (blk_threads s ! i)" using inv by (simp add: blk_inv_def)
    show ?thesis
      using True BlkTurn ok
      by (cases "blk_threads s ! i")
        (auto simp: blk_step_def blk_work_def wp_simps blk_ok_def intro!: blk_inv_replace[OF inv True])
  qed (simp add: BlkTurn blk_step_def wp_simps)
qed (use blk_inv_accept[OF assms] in \<open>simp add: blk_step_def\<close>)

section \<open>Property\<close>

text \<open>
  C27. The echo server of blockio, for every interleaving: each of its threads has a descriptor
  of its own, and the bytes its writes have put there are bytes it has read from it, in order and each at most once, a prefix of them
  as long as no write has failed or been short (the rest of a short write is lost, and what is read later is sent all the same); but no
  descriptor is ever closed, so the connections of all the threads that were ever started stay open.
\<close>
theorem blk_server_never_closes:
  assumes "accept_fresh k" and "blk_server k sched [] = (Inr s, h)"
  shows "open_conns h = set (map blk_fd (blk_threads s)) \<and> card (open_conns h) = length (blk_threads s) \<and>
    (\<forall>fd. subseq (put_on fd h) (got_on fd h) \<and> (whole_writes fd h \<longrightarrow> prefix (put_on fd h) (got_on fd h)))"
proof -
  have init: "wp (open_listener k False 9527) (\<lambda>fd h. fd \<noteq> -1 \<and> open_conns h = {} \<and> (\<forall>d. got_on d h = [] \<and> handed_on d h = []))
      any_stop []"
    by (rule wp_open_listener) (auto simp: opening_call_def split: call.splits)
  have loop: "wp (for_io sched (blk_step k) s) blk_inv any_stop h" if "blk_inv s h" for s h
    by (rule wp_for_io[where I = blk_inv]) (auto intro: blk_inv_step[OF assms(1)] that)
  have "wp (blk_server k sched) blk_inv any_stop []"
    unfolding blk_server_def
    by (subst wp_bnd, rule wp_mono[OF init]) (auto intro!: loop simp: blk_inv_def)
  from wp_InrD[OF this assms(2)] have inv: "blk_inv s h" .
  have handed: "prefix (handed_on fd h) (got_on fd h)" for fd
  proof (cases "fd \<in> open_conns h")
    case True
    then have "fd \<in> blk_fd ` set (blk_threads s)" using inv by (simp add: blk_inv_def)
    then obtain t where "t \<in> set (blk_threads s)" "blk_fd t = fd" by blast
    then show ?thesis using inv by (auto simp: blk_inv_def blk_ok_def)
  qed (use inv in \<open>auto simp: blk_inv_def\<close>)
  have "subseq (put_on fd h) (got_on fd h)" for fd
    using put_on_subseq prefix_imp_subseq[OF handed] by (rule subseq_order.trans)
  moreover have "whole_writes fd h \<Longrightarrow> prefix (put_on fd h) (got_on fd h)" for fd
    using handed put_on_whole by metis
  ultimately show ?thesis using inv by (auto simp: blk_inv_def dest: distinct_card)
qed

definition blk_kernel :: kernel where
  "blk_kernel h c =
     (case c of
        CAccept l \<Rightarrow> if int (length h) \<in> open_conns h \<or> int (length h) = l then mk_ret (-1) else mk_ret (int (length h))
      | CRead fd n \<Rightarrow> if length h < 6 then mk_ret 2\<lparr>dat := ''hi''\<rparr> else mk_ret 0
      | CWrite fd b \<Rightarrow> mk_ret (int (length b))
      | _ \<Rightarrow> mk_ret 0)"

theorem blk_server_never_closes_witness:
  "\<exists>s h. blk_server blk_kernel [BlkAccept, BlkTurn 0, BlkTurn 0, BlkTurn 0, BlkTurn 0] [] = (Inr s, h) \<and>
    blk_threads s = [BlkEnd 3] \<and> open_conns h = {3} \<and> got_on 3 h = ''hi'' \<and> put_on 3 h = ''hi'' \<and> whole_writes 3 h"
proof -
  have fresh: "accept_fresh blk_kernel" by (simp add: accept_fresh_def blk_kernel_def)
  obtain s h where r: "blk_server blk_kernel [BlkAccept, BlkTurn 0, BlkTurn 0, BlkTurn 0, BlkTurn 0] [] = (Inr s, h)"
    "blk_threads s = [BlkEnd 3]" "got_on 3 h = ''hi''" "put_on 3 h = ''hi''" "whole_writes 3 h"
    by (simp add: blk_server_def open_listener_def wrapper_defs io_simps blk_kernel_def blk_step_def blk_accept_def blk_work_def)
  from blk_server_never_closes[OF fresh r(1)] r show ?thesis by simp
qed

end
