(* ===== verification/Libevent_Apps.thy ===== *)
theory Libevent_Apps
  imports C_Strings
begin

text \<open>
  The programs of \<^verbatim>\<open>libevent/\<close>. The library is not under
  \<^verbatim>\<open>src/\<close>: a call of it is a \<open>CLib\<close> with its name, its arguments
  and its data, answered by the kernel argument, and its loop
  \<^verbatim>\<open>event_base_dispatch\<close> is the list of the callbacks it makes. What is modelled is
  what the callbacks do with what they are given.
\<close>

section \<open>Constants and buffers\<close>

abbreviation (input) BEV_EVENT_EOF :: "16 word" where "BEV_EVENT_EOF \<equiv> 0x10"
abbreviation (input) BEV_EVENT_ERROR :: "16 word" where "BEV_EVENT_ERROR \<equiv> 0x20"
abbreviation (input) BEV_EVENT_CONNECTED :: "16 word" where "BEV_EVENT_CONNECTED \<equiv> 0x80"

definition lib :: "kernel \<Rightarrow> bytes \<Rightarrow> int list \<Rightarrow> bytes \<Rightarrow> resp io" where
  "lib k name args b = sys k (CLib name args b)"

text \<open>A buffer of 1024 bytes after \<open>d\<close> was stored at its start.\<close>

definition filled :: "bytes \<Rightarrow> bytes \<Rightarrow> bytes" where
  "filled d old = take 1024 d @ drop (length d) old"

text \<open>Printing a buffer with \<^verbatim>\<open>%s\<close>.\<close>

definition print_s :: "bytes \<Rightarrow> unit io" where
  "print_s buf = (if terminated buf then pure () else halt (Undef NoTerminator))"

section \<open>buffeventserver.c\<close>

datatype lib_event = NewConn int | BevRead int | BevWrite int | BevEvent int "16 word"

definition srv_read_cb :: "kernel \<Rightarrow> int \<Rightarrow> unit io" where
  "srv_read_cb k bev =
     bnd (lib k ''bufferevent_read'' [bev, 1024] []) (\<lambda>r.
     bnd (print_s (filled (dat r) (replicate 1024 NUL))) (\<lambda>_.
     bnd (lib k ''bufferevent_write'' [bev] (''I have got data'' @ [LF])) (\<lambda>_. pure ())))"

text \<open>The condition \<^verbatim>\<open>events | BEV_EVENT_CONNECTED\<close> always holds, its branch is empty.\<close>

definition srv_event_cb :: "16 word \<Rightarrow> unit io" where
  "srv_event_cb events = (if events OR BEV_EVENT_CONNECTED \<noteq> 0 then pure () else pure ())"

definition listener_cb :: "kernel \<Rightarrow> int \<Rightarrow> int \<Rightarrow> unit io" where
  "listener_cb k base fd =
     bnd (lib k ''bufferevent_socket_new'' [base, fd, 1] []) (\<lambda>r. let bev = ret r in
     bnd (lib k ''bufferevent_setcb'' [bev] []) (\<lambda>_.
     bnd (lib k ''bufferevent_enable'' [bev, 2] []) (\<lambda>_. pure ())))"

definition lib_server_event :: "kernel \<Rightarrow> int \<Rightarrow> lib_event \<Rightarrow> unit \<Rightarrow> unit io" where
  "lib_server_event k base e u =
     (case e of
        NewConn fd \<Rightarrow> listener_cb k base fd
      | BevRead bev \<Rightarrow> srv_read_cb k bev
      | BevWrite bev \<Rightarrow> pure ()
      | BevEvent bev ev \<Rightarrow> srv_event_cb ev)"

definition lib_server :: "kernel \<Rightarrow> lib_event list \<Rightarrow> unit io" where
  "lib_server k es =
     bnd (lib k ''event_base_new'' [] []) (\<lambda>b.
     bnd (lib k ''evconnlistener_new_bind'' [ret b, 10, -1, 9000] []) (\<lambda>l.
     bnd (for_io es (lib_server_event k (ret b)) ()) (\<lambda>_.
     bnd (lib k ''evconnlistener_free'' [ret l] []) (\<lambda>_.
     bnd (lib k ''event_base_free'' [ret b] []) (\<lambda>_. pure ())))))"

section \<open>buffeventclient.c\<close>

text \<open>
  The state is the bufferevent and whether it has been freed. The event for the terminal keeps
  the pointer: using it after the free is undefined. A freed bufferevent makes no callbacks.
\<close>

record lib_client =
  c_bev :: int
  c_freed :: bool

datatype client_event = CRead_cb | CWrite_cb | CEvent_cb "16 word" | CTerminal

definition cli_read_cb :: "kernel \<Rightarrow> lib_client \<Rightarrow> lib_client io" where
  "cli_read_cb k s =
     bnd (lib k ''bufferevent_read'' [c_bev s, 1024] []) (\<lambda>r.
     bnd (print_s (filled (dat r) (replicate 1024 NUL))) (\<lambda>_. pure s))"

definition cli_event_cb :: "kernel \<Rightarrow> 16 word \<Rightarrow> lib_client \<Rightarrow> lib_client io" where
  "cli_event_cb k events s =
     (let free = bnd (lib k ''bufferevent_free'' [c_bev s] []) (\<lambda>_. pure (s\<lparr>c_freed := True\<rparr>)) in
      if events AND BEV_EVENT_EOF \<noteq> 0 then free
      else if events AND BEV_EVENT_ERROR \<noteq> 0 then free
      else if events AND BEV_EVENT_CONNECTED \<noteq> 0 then pure s
      else free)"

text \<open>\<open>len + 1\<close> bytes are written: more than the buffer has when the read filled it.\<close>

definition read_terminal :: "kernel \<Rightarrow> int \<Rightarrow> lib_client \<Rightarrow> lib_client io" where
  "read_terminal k fd s =
     bnd (sys k (CRead fd 1024)) (\<lambda>r.
       let buf = filled (dat r) (replicate 1024 NUL); len = ret r in
       if c_freed s then halt (Undef BadFree)
       else if 1024 < len + 1 then halt (Undef OutOfBounds)
       else bnd (lib k ''bufferevent_write'' [c_bev s] (take (nat (len + 1)) buf)) (\<lambda>_. pure s))"

definition lib_client_event :: "kernel \<Rightarrow> client_event \<Rightarrow> lib_client \<Rightarrow> lib_client io" where
  "lib_client_event k e s =
     (case e of
        CTerminal \<Rightarrow> read_terminal k 0 s
      | CRead_cb \<Rightarrow> if c_freed s then halt Blocked else cli_read_cb k s
      | CWrite_cb \<Rightarrow> if c_freed s then halt Blocked else pure s
      | CEvent_cb ev \<Rightarrow> if c_freed s then halt Blocked else cli_event_cb k ev s)"

definition lib_client_main :: "kernel \<Rightarrow> client_event list \<Rightarrow> lib_client io" where
  "lib_client_main k es =
     bnd (lib k ''event_base_new'' [] []) (\<lambda>b.
     bnd (sys k (CSocket AF_INET SOCK_STREAM 0)) (\<lambda>f.
     bnd (lib k ''bufferevent_socket_new'' [ret b, ret f, 1] []) (\<lambda>v.
     bnd (lib k ''bufferevent_socket_connect'' [ret v, 9000] []) (\<lambda>_.
     bnd (lib k ''bufferevent_setcb'' [ret v] []) (\<lambda>_.
     bnd (lib k ''bufferevent_enable'' [ret v, 2] []) (\<lambda>_.
     bnd (lib k ''event_new'' [ret b, 0, 18] []) (\<lambda>e.
     bnd (lib k ''event_add'' [ret e] []) (\<lambda>_.
     bnd (for_io es (lib_client_event k) \<lparr>c_bev = ret v, c_freed = False\<rparr>) (\<lambda>s.
     bnd (lib k ''event_free'' [ret e] []) (\<lambda>_.
     bnd (lib k ''event_base_free'' [ret b] []) (\<lambda>_. pure s)))))))))))"

section \<open>The two FIFO programs\<close>

text \<open>The buffer is not initialised, and what is read has no terminator of its own.\<close>

definition fifo_read_cb :: "kernel \<Rightarrow> int \<Rightarrow> bytes \<Rightarrow> unit io" where
  "fifo_read_cb k fd junk =
     bnd (sys k (CRead fd 1024)) (\<lambda>r.
     bnd (print_s (filled (take (nat (ret r)) (dat r)) junk)) (\<lambda>_.
     bnd (sys k (CSleep 1)) (\<lambda>_. pure ())))"

definition fifo_reader :: "kernel \<Rightarrow> bytes \<Rightarrow> nat \<Rightarrow> unit io" where
  "fifo_reader k junk n =
     bnd (sys k (CUnlink ''fifoevent'')) (\<lambda>_.
     bnd (lib k ''mkfifo'' [436] ''fifoevent'') (\<lambda>_.
     bnd (sys k (COpenFlags ''fifoevent'' 2048)) (\<lambda>r. let fd = ret r in
     if fd = -1 then halt (Exit 0)
     else bnd (lib k ''event_base_new'' [] []) (\<lambda>b.
          bnd (lib k ''event_new'' [ret b, fd, 18] []) (\<lambda>e.
          bnd (lib k ''event_add'' [ret e] []) (\<lambda>_.
          bnd (times n (\<lambda>_. fifo_read_cb k fd junk) ()) (\<lambda>_.
          bnd (lib k ''event_base_free'' [ret b] []) (\<lambda>_. pure ()))))))))"

definition fifo_write_cb :: "kernel \<Rightarrow> int \<Rightarrow> unit io" where
  "fifo_write_cb k fd =
     bnd (wr k (CWrite fd ''hello libevent '')) (\<lambda>_. bnd (sys k (CSleep 1)) (\<lambda>_. pure ()))"

definition fifo_writer :: "kernel \<Rightarrow> nat \<Rightarrow> unit io" where
  "fifo_writer k n =
     bnd (sys k (COpenFlags ''fifoevent'' 2049)) (\<lambda>r. let fd = ret r in
     if fd = -1 then halt (Exit 0)
     else bnd (lib k ''event_base_new'' [] []) (\<lambda>b.
          bnd (lib k ''event_new'' [ret b, fd, 20] []) (\<lambda>e.
          bnd (lib k ''event_add'' [ret e] []) (\<lambda>_.
          bnd (times n (\<lambda>_. fifo_write_cb k fd) ()) (\<lambda>_.
          bnd (lib k ''event_base_free'' [ret b] []) (\<lambda>_. pure ())))))) "

lemmas libevent_defs = lib_def print_s_def read_terminal_def cli_event_cb_def cli_read_cb_def lib_client_event_def
  srv_read_cb_def fifo_read_cb_def

section \<open>Properties\<close>

text \<open>
  C39. A line from the terminal: the libevent client sends what it read followed by one NUL
  byte; after a failed read it sends nothing, at the end of the input it sends a NUL; a read
  that fills the buffer makes it pass on a byte from behind the buffer.
\<close>
theorem read_terminal_sends:
  assumes "\<not> c_freed s" and "r = k h (CRead fd 1024)" and "-1 \<le> ret r"
    and "0 \<le> ret r \<longrightarrow> int (length (dat r)) = ret r" and "ret r = -1 \<longrightarrow> dat r = []"
  shows "wp (read_terminal k fd s)
    (\<lambda>s' h'. s' = s \<and> ret r < 1024 \<and>
       (\<exists>q. h' = (CLib ''bufferevent_write'' [c_bev s] (if ret r = -1 then [] else dat r @ [NUL]), q) # (CRead fd 1024, r) # h))
    (\<lambda>e h'. e = Undef OutOfBounds \<and> 1024 \<le> ret r) h"
proof (cases "1024 \<le> ret r")
  case False
  have "take (nat (ret r + 1)) (filled (dat r) (replicate 1024 NUL)) = (if ret r = -1 then [] else dat r @ [NUL])"
  proof (cases "ret r = -1")
    case n: False
    then have "nat (ret r + 1) = Suc (length (dat r))" "length (dat r) < 1024" using assms(3,4) False by auto
    then show ?thesis using n by (simp add: filled_def take_Cons' Suc_diff_le)
  qed simp
  then show ?thesis using assms(1,2) False by (simp add: libevent_defs wp_simps Let_def)
qed (use assms(1,2) in \<open>simp add: libevent_defs wp_simps Let_def\<close>)

definition term_kernel :: kernel where
  "term_kernel h c = (case c of CRead fd n \<Rightarrow> mk_ret 2\<lparr>dat := ''ab''\<rparr> | _ \<Rightarrow> mk_ret 0)"

theorem read_terminal_sends_witness:
  "\<exists>q r. read_terminal term_kernel 0 \<lparr>c_bev = 5, c_freed = False\<rparr> [] =
     (Inr \<lparr>c_bev = 5, c_freed = False\<rparr>, [(CLib ''bufferevent_write'' [5] (''ab'' @ [NUL]), q), (CRead 0 1024, r)])"
proof -
  let ?s = "\<lparr>c_bev = 5, c_freed = False\<rparr>" and ?r = "term_kernel [] (CRead 0 1024)"
  have "wp (read_terminal term_kernel 0 ?s)
    (\<lambda>s' h'. s' = ?s \<and> ret ?r < 1024 \<and>
       (\<exists>q. h' = (CLib ''bufferevent_write'' [c_bev ?s] (if ret ?r = -1 then [] else dat ?r @ [NUL]), q) # (CRead 0 1024, ?r) # []))
    (\<lambda>e h'. e = Undef OutOfBounds \<and> 1024 \<le> ret ?r) []"
    by (rule read_terminal_sends) (simp_all add: term_kernel_def)
  then show ?thesis
    by (cases "read_terminal term_kernel 0 ?s []" rule: prod.exhaust; cases "fst (read_terminal term_kernel 0 ?s [])")
      (auto simp: wp_def term_kernel_def)
qed

text \<open>
  After the connection ended or failed the libevent client has freed its bufferevent, and
  the next line from the terminal uses the freed pointer.
\<close>
theorem client_uses_freed_bev:
  assumes "\<not> c_freed s" and "ev AND (BEV_EVENT_EOF OR BEV_EVENT_ERROR) \<noteq> 0"
  shows "fst (bnd (lib_client_event k (CEvent_cb ev) s) (lib_client_event k CTerminal) h) = Inl (Undef BadFree)"
proof -
  have "ev AND BEV_EVENT_EOF \<noteq> 0 \<or> ev AND BEV_EVENT_ERROR \<noteq> 0"
    using assms(2) by (metis bit.conj_disj_distrib or.left_neutral)
  then show ?thesis
    using assms(1) by (auto simp: libevent_defs io_simps Let_def)
qed

theorem client_uses_freed_bev_witness:
  "fst (bnd (lib_client_event term_kernel (CEvent_cb BEV_EVENT_EOF) \<lparr>c_bev = 5, c_freed = False\<rparr>)
     (lib_client_event term_kernel CTerminal) []) = Inl (Undef BadFree)"
  by (rule client_uses_freed_bev) simp_all

end
