(* ===== verification/Small_Programs.thy ===== *)
theory Small_Programs
  imports Http_Server
begin

text \<open>
  Two programs that try out one call each: \<^verbatim>\<open>http/sscanftest.c\<close> scans a file name with
  the format of the HTTP server, \<^verbatim>\<open>libevent/event.c\<close> prints the methods libevent supports.
\<close>

text \<open>What the first one prints; its two arrays of ten bytes are not initialised.\<close>

definition sscanf_test :: "bytes \<Rightarrow> bytes \<Rightarrow> stop + bytes" where
  "sscanf_test buf ex =
     (case store_fields (sscanf [NotChar CHR ''.'', Lit CHR ''.'', Word] ''1.jpg'') [buf, ex] of
        Inl e \<Rightarrow> Inl e
      | Inr bs \<Rightarrow>
          if terminated (bs ! 0) \<and> terminated (bs ! 1)
          then Inr (c_str (bs ! 0) @ ''---- '' @ c_str (bs ! 1) @ [LF]) else Inl (Undef NoTerminator))"

lemma sscanf_test_prints:
  "length buf = 10 \<Longrightarrow> length ex = 10 \<Longrightarrow> sscanf_test buf ex = Inr (''1---- jpg'' @ [LF])"
  by (simp add: sscanf_test_def is_space_def store_at_def c_str_def)

text \<open>
  The second: the library returns a null pointer (\<open>None\<close>) or the names, of which one is printed per
  round of the loop. The event base it creates before is neither used nor freed.
\<close>

fun methods_shown :: "bytes list \<Rightarrow> bytes" where
  "methods_shown [] = []"
| "methods_shown (m # ms) = ''support: '' @ m @ '' '' @ [LF] @ methods_shown ms"

definition event_main :: "bytes list option \<Rightarrow> bytes" where
  "event_main methods = (case methods of None \<Rightarrow> [] | Some ms \<Rightarrow> methods_shown ms)"

lemma event_main_prints: "event_main (Some ms) = concat (map (\<lambda>m. ''support: '' @ m @ '' '' @ [LF]) ms)"
  by (induction ms) (simp_all add: event_main_def)

end
