(* ===== verification/Spec2Isabelle.thy ===== *)
theory Spec2Isabelle
  imports Http_Sessions Pool_Claims Reactor_Claims Pipe_Demo Echo_Service Udp_Talk
    Local_Talk Fork_Claims Ttcp_Roundtrip Task_Threads Block_Io Libevent_Apps Small_Programs
begin

text \<open>
  The programs of this repository are small network programs, one directory for each way of
  waiting for input, and a thread pool. They share no process; what they share is the copied
  file of checked system calls and the habits of their authors. The development models each of
  them on one prelude.

  \<^bold>\<open>The prelude.\<close> \<open>Net_Base\<close>: a program is a function from the history of
  system calls so far to a result and a longer history; the kernel is an argument, a function from the
  history and the call to the call's result. A program stops by \<^verbatim>\<open>exit\<close>, by
  \<^verbatim>\<open>abort\<close>, by a step that C or POSIX leaves undefined, by waiting for ever, because the
  fuel of a loop is used up, or because \<^verbatim>\<open>SIGPIPE\<close> kills it. \<open>wp\<close> is the weakest precondition with a postcondition for the normal end
  and one for the stops; \<open>wp_for_io\<close> and \<open>wp_times\<close> are its loop rules.
  \<open>C_Strings\<close> holds buffers, \<^verbatim>\<open>atoi\<close>, decimal numbers and the part of
  \<^verbatim>\<open>sscanf\<close> the server uses. \<open>Slots\<close> is the locale of a table whose used
  entries carry distinct keys; it is interpreted on the reactor's slots, on both descriptor arrays and on the
  threads of the echo server; \<open>Wrappers\<close> holds the locale of a checked read, interpreted on both versions
  of \<^verbatim>\<open>Read\<close>. Assumptions on the kernel are named predicates (\<open>accept_fresh\<close>,
  \<open>fresh_sockets\<close>, \<open>kernel_fds\<close>, \<open>stream_at\<close>, \<open>file_system\<close>,
  \<open>send_bounded\<close>, \<open>send_room\<close>, \<open>epoll_kernel\<close>, \<open>flow_control\<close>, \<open>carries\<close>, \<open>duplex\<close>,
  \<open>pipe_world\<close>, \<open>network\<close>, \<open>types\<close> for what the user types) and stand as hypotheses where they are used.

  \<^bold>\<open>What was sent.\<close> The servers ignore the results of their writes, so the properties do not: \<open>sent_on\<close>,
  \<open>put_on\<close>, \<open>sent_len\<close> and \<open>pending\<close> count, of the bytes of a call, as many as it
  answers that it took; \<open>handed_on\<close> and \<open>payloads\<close>, the bytes given to the calls, only serve as invariants.
  \<open>whole_writes\<close> says that no write of a run was short, \<open>send_room\<close> that a socket's buffer has room for a number of bytes.
  None of the programs but those of \<^verbatim>\<open>ttcp/\<close> ignores \<^verbatim>\<open>SIGPIPE\<close>, so their writes to
  connections and pipes are \<open>wr\<close>, which stops the program (\<open>Killed\<close>) when the peer has gone; the terminal is taken
  to stay, a datagram raises no signal, and what libevent writes is the library's.

  \<^bold>\<open>http/myhttpd.c.\<close> \<open>Http_Line\<close>: \<^verbatim>\<open>get_line\<close>, reading
  one byte at a time with a peek after a carriage return. \<open>Http_Server\<close>: the responses, the file
  transfer, the request and the event loop. \<open>Http_Props\<close> and \<open>Http_Claims\<close>: the line
  reader against a reference on the byte stream, when the header loop ends, and which descriptors are watched.
  \<open>Http_Answers\<close>: the answer to a request as a specification, and that \<^verbatim>\<open>do_read\<close>
  gives it. \<open>Http_Sessions\<close>: all clients together (\<open>clients\<close>): whatever the order of the
  reports, each connection gets the answers to its own requests, as long as its buffer has room for them. A descriptor number stands
  for one client there: a run in which a number is given again after a close is not covered by that theorem.

  \<^bold>\<open>threadpool/main.c.\<close> \<open>Pool_Queue\<close>: the record, the circular task array and its
  refinement of a bounded list through the interface \<open>bounded_fifo\<close>. \<open>Pool_Life\<close>:
  creation, one round of the manager, destruction. \<open>Pool_Threads\<close>: workers, manager, adding and
  destroying threads as statements that are interleaved by a schedule. \<open>Pool_Inv\<close> and
  \<open>Pool_Adds\<close>: the invariants of all interleavings. \<open>Pool_Claims\<close>: the properties;
  \<open>guarded\<close> names the sections that end by releasing the pool's lock, \<open>dequeues\<close> the one of them that never acquires it.

  \<^bold>\<open>epoll_et/server3.c.\<close> \<open>Reactor\<close>: the event slots and the three callbacks, which
  the slots name. \<open>Reactor_Props\<close>, \<open>Reactor_Watch\<close>, \<open>Reactor_Claims\<close>: the
  slots in use and the epoll set agree, up to the registrations that \<^verbatim>\<open>epoll_ctl\<close> refused (\<open>failed_adds\<close>).

  \<^bold>\<open>The polling servers.\<close> \<open>Wrappers\<close>: \<^verbatim>\<open>common/wrapper.c\<close>
  and its copies. \<open>Epoll_Servers\<close>: \<^verbatim>\<open>epoll/server.c\<close>,
  \<^verbatim>\<open>epoll_et/server2.c\<close>, \<^verbatim>\<open>epoll_et/server.c\<close>.
  \<open>Select_Servers\<close>: \<^verbatim>\<open>seclect/server.c\<close> and
  \<^verbatim>\<open>server2.c\<close>. \<open>Poll_Server\<close>: \<^verbatim>\<open>poll/pollServer.c\<close>.
  Each has an invariant that relates its table to the open connections of the history.
  \<open>Echo_Service\<close>: the contract of a round that echoes (\<open>echo_rounds\<close>), interpreted on both select
  servers and the poll server, and what of it reaches the client when writes are short. \<open>Pipe_Demo\<close>: parent and child of \<^verbatim>\<open>epoll_et/server.c\<close> on one pipe.

  \<^bold>\<open>The blocking programs.\<close> \<open>Blocking_Servers\<close> and \<open>Blocking_Claims\<close>:
  the programs of \<^verbatim>\<open>socket/\<close>, \<^verbatim>\<open>localSocket/\<close> and
  \<^verbatim>\<open>udp/\<close>. \<open>Line_Service\<close>: the interface of a client that reads lines and a
  server that answers each of them (\<open>request_reply\<close>, from which the laws of a whole exchange,
  \<open>line_service\<close>, follow), with the course of a conversation proved once;
  \<open>Stream_Link\<close>: one direction of a byte stream, shared by the programs that talk over one;
  \<open>Udp_Talk\<close> and \<open>Local_Talk\<close> interpret it on the UDP programs and on the
  Unix-domain programs. \<open>Fork_Claims\<close>: what parent and children of the forking server hold.
  \<open>Block_Io\<close>: server and client of \<^verbatim>\<open>blockio/\<close>.
  \<open>Task_Threads\<close>: \<^verbatim>\<open>blockio/test.cc\<close>, threads that take numbered tasks from
  a counter.

  \<^bold>\<open>ttcp/.\<close> \<open>Inet_Address\<close>: the address class on its 28 bytes.
  \<open>Tcp_Stream\<close>: sockets as owned descriptors, streams, the acceptor; sending everything and connecting.
  \<open>Ttcp_Echo\<close>: the echo server with its threads interleaved, and the client.
  \<open>Ttcp_Claims\<close>: the two of them on one connection, which messages get through and which block both.
  \<open>Ttcp_Roundtrip\<close>: a message that fits the buffers of the connection comes back whole, after at most
  four steps per byte and one more.

  \<^bold>\<open>libevent/.\<close> \<open>Libevent_Apps\<close>: what the callbacks of the four programs do; the
  library is an argument, its loop is the list of the callbacks it makes. \<open>Small_Programs\<close>:
  \<^verbatim>\<open>libevent/event.c\<close> and \<^verbatim>\<open>http/sscanftest.c\<close>.

  \<^bold>\<open>Bounds.\<close> A server's endless loop runs for an arbitrary number of rounds or an arbitrary
  schedule, and the properties hold for all of them. \<open>get_line\<close> counts down the room left in
  its buffer, \<open>sendAll\<close> the rounds it can need at most, each of which sends a byte (\<open>sendAll_sends\<close>
  shows that it returns). \<open>send_loop\<close>, \<open>skip_headers\<close> and \<open>sig_child\<close> take fuel as an
  argument: \<open>get_request_answered\<close> and \<open>skip_headers_returns\<close> show that the length of what is
  left to read is enough, \<open>do_read_stuck_on_close\<close> and \<open>sig_child_returns_iff\<close> say when none is.
  Integers of the C programs that only count or index are \<open>int\<close>; event masks, ports and families are
  words.

  \<^bold>\<open>Not modelled.\<close> Printing to the terminal, except where a string without a terminator is
  printed or where what is printed is the program's result; the text of error messages; memory that is only
  allocated and freed by the C++ library; \<^verbatim>\<open>last_active\<close> of the reactor, which is never
  read; \<^verbatim>\<open>process\<close> and \<^verbatim>\<open>is_thread_alive\<close> of the pool, which have
  no effect on it; the build files. The copies of the checked calls in \<^verbatim>\<open>seclect/\<close>,
  \<^verbatim>\<open>socket/\<close> and \<^verbatim>\<open>blockio/\<close> are not modelled a second time: function by
  function they are those of \<^verbatim>\<open>common/wrapper.c\<close> or \<^verbatim>\<open>poll/wrapper.c\<close>. Of
  \<^verbatim>\<open>ttcp/comm/Common.h\<close> only \<^verbatim>\<open>memZero\<close> is a definition; its classes pass
  values on or forbid copies.
\<close>

end
